theory Spec2Isabelle
  imports Complex_Main "HOL-Library.Log_Nat"
begin

section \<open>Macro budget: the data model\<close>

text \<open>
  The application keeps two JavaScript objects: the daily budget, keyed by field name,
  and the weekly entries, keyed by weekday name, each day holding an object keyed by
  field name. Every value is a text field. The key names are fixed string constants of
  the source and are modelled as enumerations; an object is a partial map, so that a key
  that is absent (reading it gives \<open>undefined\<close>) is \<open>None\<close>.
\<close>

datatype day = Monday | Tuesday | Wednesday | Thursday | Friday | Saturday | Sunday

datatype field = Calories | Carbs | Protein | Fat

definition DAYS :: "day list" where
  "DAYS = [Monday, Tuesday, Wednesday, Thursday, Friday, Saturday, Sunday]"

definition FIELDS :: "field list" where
  \<comment> \<open>the array literal iterated by the inner \<open>forEach\<close> of \<open>calculateRemaining\<close>\<close>
  "FIELDS = [Calories, Carbs, Protein, Fat]"

fun day_name :: "day \<Rightarrow> string" where
  "day_name Monday = ''Monday''"
| "day_name Tuesday = ''Tuesday''"
| "day_name Wednesday = ''Wednesday''"
| "day_name Thursday = ''Thursday''"
| "day_name Friday = ''Friday''"
| "day_name Saturday = ''Saturday''"
| "day_name Sunday = ''Sunday''"

type_synonym budget = "field \<rightharpoonup> string"
type_synonym entry = "field \<rightharpoonup> string"
type_synonym weekly = "day \<rightharpoonup> entry"

datatype error = TypeError

section \<open>JavaScript numbers\<close>

text \<open>
  A Number is \<open>NaN\<close>, one of the two infinities, or a finite binary64 value, held
  as the rational it denotes. Every arithmetic result and every parsed literal is
  rounded to the nearest such value, a tie going to the even significand: 53 bits of
  precision, exponents from -1022 to 1023, gradual underflow below and overflow to an
  infinity above. Negative zero is identified with zero, which no comparison of the
  source distinguishes.
\<close>

datatype jsnum = NaN | Fin rat | PInf | NInf

definition pow2 :: "int \<Rightarrow> rat" where
  "pow2 e = 2 powi e"

definition ilog2 :: "rat \<Rightarrow> int" where
  \<comment> \<open>for a positive \<open>a\<close>: the \<open>e\<close> with \<open>2^e \<le> a < 2^(e+1)\<close>\<close>
  "ilog2 a = (if 1 \<le> a then bitlen \<lfloor>a\<rfloor> - 1 else - bitlen (\<lceil>1 / a\<rceil> - 1))"

definition round_ties_even :: "rat \<Rightarrow> int" where
  "round_ties_even m =
     (let lo = \<lfloor>m\<rfloor>; d = m - of_int lo
      in if d < 1 / 2 then lo
         else if 1 / 2 < d then lo + 1
         else if even lo then lo else lo + 1)"

definition expo :: "rat \<Rightarrow> int" where
  \<comment> \<open>the binary exponent of a positive value, that of the subnormals at least\<close>
  "expo a = max (ilog2 a) (- 1022)"

definition nearest :: "rat \<Rightarrow> rat" where
  \<comment> \<open>a positive value rounded to 53 significant bits\<close>
  "nearest a = of_int (round_ties_even (a / pow2 (expo a - 52))) * pow2 (expo a - 52)"

definition round64 :: "rat \<Rightarrow> jsnum" where
  "round64 x =
     (if x = 0 then Fin 0
      else if 0 < x then (if pow2 1024 \<le> nearest x then PInf else Fin (nearest x))
      else (if pow2 1024 \<le> nearest (- x) then NInf else Fin (- nearest (- x))))"

definition is_double :: "rat \<Rightarrow> bool" where
  "is_double r = (round64 r = Fin r)"

fun js_ok :: "jsnum \<Rightarrow> bool" where
  \<comment> \<open>the value is a Number: a finite one is a binary64 value\<close>
  "js_ok (Fin r) = is_double r"
| "js_ok _ = True"

fun isNaN :: "jsnum \<Rightarrow> bool" where
  "isNaN NaN = True"
| "isNaN _ = False"

fun js_neg :: "jsnum \<Rightarrow> jsnum" where
  "js_neg NaN = NaN"
| "js_neg (Fin a) = Fin (- a)"
| "js_neg PInf = NInf"
| "js_neg NInf = PInf"

fun js_add :: "jsnum \<Rightarrow> jsnum \<Rightarrow> jsnum" where
  "js_add NaN _ = NaN"
| "js_add _ NaN = NaN"
| "js_add (Fin a) (Fin b) = round64 (a + b)"
| "js_add PInf NInf = NaN"
| "js_add NInf PInf = NaN"
| "js_add PInf _ = PInf"
| "js_add NInf _ = NInf"
| "js_add (Fin a) b = b"

definition js_sub :: "jsnum \<Rightarrow> jsnum \<Rightarrow> jsnum" where
  "js_sub a b = js_add a (js_neg b)"

fun js_sign :: "jsnum \<Rightarrow> rat" where
  "js_sign (Fin a) = sgn a"
| "js_sign PInf = 1"
| "js_sign NInf = - 1"
| "js_sign NaN = 0"

fun js_mul :: "jsnum \<Rightarrow> jsnum \<Rightarrow> jsnum" where
  "js_mul NaN _ = NaN"
| "js_mul _ NaN = NaN"
| "js_mul (Fin a) (Fin b) = round64 (a * b)"
| "js_mul a b =
     (let s = js_sign a * js_sign b
      in if s = 0 then NaN else if 0 < s then PInf else NInf)"

fun js_div :: "jsnum \<Rightarrow> jsnum \<Rightarrow> jsnum" where
  "js_div NaN _ = NaN"
| "js_div _ NaN = NaN"
| "js_div (Fin a) (Fin b) =
     (if b = 0 then (if a = 0 then NaN else if 0 < a then PInf else NInf)
      else round64 (a / b))"
| "js_div (Fin a) _ = Fin 0"
| "js_div PInf (Fin b) = (if 0 \<le> b then PInf else NInf)"
| "js_div NInf (Fin b) = (if 0 \<le> b then NInf else PInf)"
| "js_div _ _ = NaN"

fun js_gt :: "jsnum \<Rightarrow> jsnum \<Rightarrow> bool" where
  \<comment> \<open>\<open>a > b\<close>: false as soon as one side is \<open>NaN\<close>\<close>
  "js_gt NaN _ = False"
| "js_gt _ NaN = False"
| "js_gt (Fin a) (Fin b) = (b < a)"
| "js_gt PInf PInf = False"
| "js_gt PInf _ = True"
| "js_gt NInf _ = False"
| "js_gt (Fin a) NInf = True"
| "js_gt (Fin a) PInf = False"

fun js_or0 :: "jsnum \<Rightarrow> jsnum" where
  \<comment> \<open>\<open>x || 0\<close>: the falsy Numbers are \<open>NaN\<close> and zero\<close>
  "js_or0 NaN = Fin 0"
| "js_or0 (Fin a) = (if a = 0 then Fin 0 else Fin a)"
| "js_or0 x = x"

definition math_round_rat :: "rat \<Rightarrow> rat" where
  \<comment> \<open>\<open>Math.round\<close>: the closest integer; of two equally close, the one nearer to
      \<open>+\<infinity>\<close>. The closest integer of a binary64 value is a binary64 value: nothing
      is rounded a second time.\<close>
  "math_round_rat q =
     (let lo = of_int \<lfloor>q\<rfloor>
      in if q - lo < (lo + 1) - q then lo else lo + 1)"

fun math_round :: "jsnum \<Rightarrow> jsnum" where
  "math_round (Fin q) = Fin (math_round_rat q)"
| "math_round x = x"

section \<open>parseFloat\<close>

text \<open>
  A string is a list of code units below 256. \<open>parseFloat\<close> skips leading white space
  and reads the longest prefix that is a decimal literal: an optional sign, then either
  \<open>Infinity\<close> or digits with an optional fraction and an optional exponent. With no
  such prefix the result is \<open>NaN\<close>; otherwise it is the literal's value, rounded.
\<close>

definition is_digit :: "char \<Rightarrow> bool" where
  "is_digit c = (48 \<le> (of_char c :: nat) \<and> (of_char c :: nat) \<le> 57)"

definition is_space :: "char \<Rightarrow> bool" where
  "is_space c = ((of_char c :: nat) \<in> {9, 10, 11, 12, 13, 32, 160})"

definition digit_val :: "char \<Rightarrow> nat" where
  "digit_val c = of_char c - 48"

definition digits_val :: "string \<Rightarrow> nat" where
  "digits_val ds = foldl (\<lambda>a c. 10 * a + digit_val c) 0 ds"

definition pow10 :: "int \<Rightarrow> rat" where
  "pow10 e = (if 0 \<le> e then 10 ^ nat e else 1 / 10 ^ nat (- e))"

definition split_sign :: "string \<Rightarrow> bool \<times> string" where
  "split_sign s =
     (case s of
        [] \<Rightarrow> (False, s)
      | c # r \<Rightarrow> if c = CHR ''-'' then (True, r)
                else if c = CHR ''+'' then (False, r) else (False, s))"

definition exponent_part :: "string \<Rightarrow> int" where
  "exponent_part s =
     (case s of
        [] \<Rightarrow> 0
      | c # r \<Rightarrow>
          if c = CHR ''e'' \<or> c = CHR ''E'' then
            (let (eneg, d) = split_sign r; ds = takeWhile is_digit d
             in if ds = [] then 0
                else if eneg then - int (digits_val ds) else int (digits_val ds))
          else 0)"

definition parseFloat :: "string \<Rightarrow> jsnum" where
  "parseFloat s =
     (let (neg, u) = split_sign (dropWhile is_space s)
      in if take 8 u = ''Infinity'' then (if neg then NInf else PInf)
         else
           let ip = takeWhile is_digit u;
               r1 = dropWhile is_digit u;
               (fp, r2) = (case r1 of
                             [] \<Rightarrow> ([], r1)
                           | c # r \<Rightarrow> if c = CHR ''.''
                                      then (takeWhile is_digit r, dropWhile is_digit r)
                                      else ([], r1))
           in if ip = [] \<and> fp = [] then NaN
              else
                let m = of_nat (digits_val (ip @ fp)) / 10 ^ length fp * pow10 (exponent_part r2)
                in round64 (if neg then - m else m))"

definition parseFloat_prop :: "string option \<Rightarrow> jsnum" where
  \<comment> \<open>\<open>parseFloat(obj[key])\<close>: an absent key reads as \<open>undefined\<close>, whose string is
      \<open>undefined\<close>\<close>
  "parseFloat_prop v = parseFloat (case v of None \<Rightarrow> ''undefined'' | Some s \<Rightarrow> s)"

section \<open>The application state and its three mutations\<close>

definition DEFAULT_DAILY_BUDGET :: budget where
  "DEFAULT_DAILY_BUDGET = [Carbs \<mapsto> ''270'', Protein \<mapsto> ''110'', Fat \<mapsto> ''65'']"

definition emptyEntry :: entry where
  "emptyEntry = [Calories \<mapsto> '''', Carbs \<mapsto> '''', Protein \<mapsto> '''', Fat \<mapsto> '''']"

definition emptyWeeklyEntries :: weekly where
  \<comment> \<open>\<open>DAYS.reduce((acc, day) => { acc[day] = {...}; return acc; }, {})\<close>\<close>
  "emptyWeeklyEntries = foldl (\<lambda>acc d. acc(d \<mapsto> emptyEntry)) Map.empty DAYS"

text \<open>
  The two records of the persistent store, each absent (\<open>getLocalStorage\<close> gives
  \<open>null\<close> for a missing or unreadable item) or holding an object. The handlers
  below are the state updates of the source; the effects that React runs after a
  render (saving both records, rescheduling the reminder timers) are not modelled.
\<close>

record storage =
  macroDailyBudget :: "budget option"
  macroWeeklyEntries :: "weekly option"

record app_state =
  dailyBudget :: budget
  weeklyEntries :: weekly
  localStorage :: storage

definition getInitialDailyBudget :: "storage \<Rightarrow> budget" where
  \<comment> \<open>\<open>const { calories, ...rest } = saved; return rest;\<close>\<close>
  "getInitialDailyBudget st =
     (case macroDailyBudget st of
        Some saved \<Rightarrow> saved(Calories := None)
      | None \<Rightarrow> DEFAULT_DAILY_BUDGET)"

text \<open>
  The earlier copy of the application (src/src/App.js) has a budget of four stored
  fields and returns a saved record as it is.
\<close>

definition DEFAULT_DAILY_BUDGET_stored :: budget where
  "DEFAULT_DAILY_BUDGET_stored =
     [Calories \<mapsto> ''2105'', Carbs \<mapsto> ''270'', Protein \<mapsto> ''110'', Fat \<mapsto> ''65'']"

definition getInitialDailyBudget_stored :: "storage \<Rightarrow> budget" where
  \<comment> \<open>\<open>return saved || DEFAULT_DAILY_BUDGET;\<close>\<close>
  "getInitialDailyBudget_stored st =
     (case macroDailyBudget st of
        Some saved \<Rightarrow> saved
      | None \<Rightarrow> DEFAULT_DAILY_BUDGET_stored)"

definition getInitialWeeklyEntries :: "storage \<Rightarrow> weekly" where
  "getInitialWeeklyEntries st =
     (case macroWeeklyEntries st of
        Some saved \<Rightarrow> saved
      | None \<Rightarrow> emptyWeeklyEntries)"

definition initial_state :: "storage \<Rightarrow> app_state" where
  \<comment> \<open>the two \<open>useState\<close> initialisers\<close>
  "initial_state st =
     \<lparr>dailyBudget = getInitialDailyBudget st,
      weeklyEntries = getInitialWeeklyEntries st,
      localStorage = st\<rparr>"

fun digits_test :: "string \<Rightarrow> bool" where
  \<comment> \<open>\<open>/^\d+$/.test(value)\<close>: one or more digits from the start to the end\<close>
  "digits_test [] = False"
| "digits_test [c] = is_digit c"
| "digits_test (c # cs) = (is_digit c \<and> digits_test cs)"

definition handleDailyBudgetChange :: "field \<Rightarrow> string \<Rightarrow> app_state \<Rightarrow> app_state" where
  "handleDailyBudgetChange fld v s =
     (if v = '''' \<or> digits_test v
      then s\<lparr>dailyBudget := (dailyBudget s)(fld \<mapsto> v)\<rparr>
      else s)"

definition handleWeeklyEntryChange :: "day \<Rightarrow> field \<Rightarrow> string \<Rightarrow> app_state \<Rightarrow> app_state" where
  \<comment> \<open>spreading \<open>prev[day]\<close> copies nothing when the day is absent\<close>
  "handleWeeklyEntryChange d fld v s =
     (if v = '''' \<or> digits_test v
      then s\<lparr>weeklyEntries :=
               (weeklyEntries s)
                 (d \<mapsto> (case weeklyEntries s d of None \<Rightarrow> Map.empty | Some e \<Rightarrow> e)(fld \<mapsto> v))\<rparr>
      else s)"

definition handleClearAll :: "app_state \<Rightarrow> app_state" where
  "handleClearAll s =
     s\<lparr>dailyBudget := DEFAULT_DAILY_BUDGET,
       weeklyEntries := emptyWeeklyEntries,
       localStorage := \<lparr>macroDailyBudget = None, macroWeeklyEntries = None\<rparr>\<rparr>"

section \<open>The budget computation\<close>

definition calculateCalories :: "string option \<Rightarrow> string option \<Rightarrow> string option \<Rightarrow> jsnum" where
  "calculateCalories carbs protein fat =
     (let carbsNum = js_or0 (parseFloat_prop carbs);
          proteinNum = js_or0 (parseFloat_prop protein);
          fatNum = js_or0 (parseFloat_prop fat)
      in js_add (js_add (js_mul carbsNum (Fin 4)) (js_mul proteinNum (Fin 4)))
                (js_mul fatNum (Fin 9)))"

definition weeklyBudget :: "budget \<Rightarrow> field \<Rightarrow> jsnum" where
  "weeklyBudget db fld =
     (let dailyCalories = calculateCalories (db Carbs) (db Protein) (db Fat)
      in case fld of
           Calories \<Rightarrow> js_mul dailyCalories (Fin 7)
         | Carbs \<Rightarrow> js_or0 (js_mul (parseFloat_prop (db Carbs)) (Fin 7))
         | Protein \<Rightarrow> js_or0 (js_mul (parseFloat_prop (db Protein)) (Fin 7))
         | Fat \<Rightarrow> js_or0 (js_mul (parseFloat_prop (db Fat)) (Fin 7)))"

text \<open>
  The nested \<open>forEach\<close> of \<open>calculateRemaining\<close> updates two objects, \<open>totals\<close> and
  \<open>emptyFields\<close>, both keyed by the four fields. Reading a field of a day that the
  weekly entries do not hold throws a \<open>TypeError\<close>.
\<close>

type_synonym accumulators = "(field \<Rightarrow> jsnum) \<times> (field \<Rightarrow> day list)"

definition field_step :: "entry \<Rightarrow> day \<Rightarrow> accumulators \<Rightarrow> field \<Rightarrow> accumulators" where
  "field_step ent d acc fld =
     (let (totals, emptyFields) = acc; v = parseFloat_prop (ent fld)
      in if \<not> isNaN v \<and> js_gt v (Fin 0)
         then (totals(fld := js_add (totals fld) v), emptyFields)
         else (totals, emptyFields(fld := emptyFields fld @ [d])))"

fun forEach_day :: "weekly \<Rightarrow> day list \<Rightarrow> accumulators \<Rightarrow> error + accumulators" where
  "forEach_day we [] acc = Inr acc"
| "forEach_day we (d # ds) acc =
     (case we d of
        None \<Rightarrow> Inl TypeError
      | Some ent \<Rightarrow> forEach_day we ds (foldl (field_step ent d) acc FIELDS))"

definition aggregate :: "weekly \<Rightarrow> error + accumulators" where
  "aggregate we = forEach_day we DAYS (\<lambda>_. Fin 0, \<lambda>_. [])"

definition remaining :: "(field \<Rightarrow> jsnum) \<Rightarrow> (field \<Rightarrow> jsnum) \<Rightarrow> field \<Rightarrow> jsnum" where
  "remaining wb totals fld =
     (case fld of
        Calories \<Rightarrow> js_sub (wb Calories) (totals Calories)
      | Carbs \<Rightarrow> js_sub (wb Carbs) (totals Carbs)
      | Protein \<Rightarrow> js_sub (wb Protein) (totals Protein)
      | Fat \<Rightarrow> js_sub (wb Fat) (totals Fat))"

definition getPlaceholder :: "(field \<Rightarrow> day list) \<Rightarrow> (field \<Rightarrow> jsnum) \<Rightarrow> field \<Rightarrow> jsnum" where
  \<comment> \<open>a closure of the source over \<open>emptyFields\<close> and \<open>remaining\<close>, here arguments\<close>
  "getPlaceholder emptyFields rem fld =
     (let emptyCount = length (emptyFields fld)
      in if emptyCount = 0 then Fin 0
         else math_round (js_div (rem fld) (Fin (of_nat emptyCount))))"

definition isEmptyField :: "weekly \<Rightarrow> day \<Rightarrow> field \<Rightarrow> error + bool" where
  \<comment> \<open>a closure of the source over \<open>weeklyEntries\<close>\<close>
  "isEmptyField we d fld =
     (case we d of
        None \<Rightarrow> Inl TypeError
      | Some ent \<Rightarrow> (let v = parseFloat_prop (ent fld) in Inr (isNaN v \<or> v = Fin 0)))"

definition calculateRemaining ::
  "budget \<Rightarrow> weekly \<Rightarrow> error + (field \<Rightarrow> jsnum) \<times> (field \<Rightarrow> jsnum)" where
  \<comment> \<open>returns \<open>remaining\<close> and \<open>getPlaceholder\<close>, as functions of the field\<close>
  "calculateRemaining db we =
     (case aggregate we of
        Inl e \<Rightarrow> Inl e
      | Inr (totals, emptyFields) \<Rightarrow>
          (let rem = remaining (weeklyBudget db) totals
           in Inr (rem, getPlaceholder emptyFields rem)))"

section \<open>The reminder\<close>

record notification =
  title :: string
  body :: string
  icon :: string
  badge :: string
  tag :: string

definition getCurrentDay :: "nat \<Rightarrow> day" where
  \<comment> \<open>the argument is \<open>new Date().getDay()\<close>, a number from 0 (Sunday) to 6\<close>
  "getCurrentDay n =
     [Sunday, Monday, Tuesday, Wednesday, Thursday, Friday, Saturday] ! n"

definition isDayFilled :: "entry \<Rightarrow> bool" where
  "isDayFilled dayEntry =
     (js_gt (parseFloat_prop (dayEntry Calories)) (Fin 0) \<or>
      js_gt (parseFloat_prop (dayEntry Carbs)) (Fin 0) \<or>
      js_gt (parseFloat_prop (dayEntry Protein)) (Fin 0) \<or>
      js_gt (parseFloat_prop (dayEntry Fat)) (Fin 0))"

definition checkAndNotify :: "weekly \<Rightarrow> nat \<Rightarrow> notification option" where
  \<comment> \<open>the notification raised, if any, when the clock's weekday number is \<open>n\<close>\<close>
  "checkAndNotify we n =
     (let currentDay = getCurrentDay n
      in case we currentDay of
           None \<Rightarrow> None
         | Some dayEntry \<Rightarrow>
             if \<not> isDayFilled dayEntry
             then Some \<lparr>title = ''Macros Reminder'',
                        body = ''Don't forget to fill in your macros for '' @ day_name currentDay @ ''!'',
                        icon = ''/icon-block.svg'',
                        badge = ''/icon-block.svg'',
                        tag = ''macro-reminder-'' @ day_name currentDay\<rparr>
             else None)"

section \<open>Notions of the specification\<close>

text \<open>
  The definitions of this section are not code of the application: they put the words of
  the specification into HOL, to be compared with the definitions above.
\<close>

definition acceptInput :: "string \<Rightarrow> bool" where
  \<comment> \<open>the empty string, or one or more ASCII digits\<close>
  "acceptInput rawText =
     (rawText = '''' \<or>
      (rawText \<noteq> [] \<and> list_all (\<lambda>c. c \<in> set ''0123456789'') rawText))"

definition day_value :: "weekly \<Rightarrow> field \<Rightarrow> day \<Rightarrow> jsnum" where
  \<comment> \<open>what a day's value for a field parses to\<close>
  "day_value we fld d =
     (case we d of None \<Rightarrow> NaN | Some ent \<Rightarrow> parseFloat_prop (ent fld))"

definition contributes :: "weekly \<Rightarrow> field \<Rightarrow> day \<Rightarrow> bool" where
  \<comment> \<open>the day's value for the field parses to a number strictly greater than 0\<close>
  "contributes we fld d = js_gt (day_value we fld d) (Fin 0)"

definition js_sum :: "jsnum list \<Rightarrow> jsnum" where
  "js_sum xs = foldl js_add (Fin 0) xs"

definition parsed_or_zero :: "string option \<Rightarrow> jsnum" where
  \<comment> \<open>the parsed quantity, an unparsable or missing one counting as 0\<close>
  "parsed_or_zero v = (if isNaN (parseFloat_prop v) then Fin 0 else parseFloat_prop v)"

definition round_half_up :: "rat \<Rightarrow> rat" where
  "round_half_up q = of_int \<lfloor>q + 1 / 2\<rfloor>"

definition round_half_away :: "rat \<Rightarrow> rat" where
  \<comment> \<open>round half away from zero\<close>
  "round_half_away q = sgn q * of_int \<lfloor>\<bar>q\<bar> + 1 / 2\<rfloor>"

definition round_half_even :: "rat \<Rightarrow> rat" where
  \<comment> \<open>round half to even\<close>
  "round_half_even q =
     (let lo = \<lfloor>q\<rfloor>; d = q - of_int lo
      in if d < 1 / 2 then of_int lo
         else if 1 / 2 < d then of_int (lo + 1)
         else if even lo then of_int lo else of_int (lo + 1))"

text \<open>The runs of the application: any sequence of the three mutations.\<close>

datatype action =
  DailyBudgetChange field string
| WeeklyEntryChange day field string
| ClearAll

fun apply_action :: "app_state \<Rightarrow> action \<Rightarrow> app_state" where
  "apply_action s (DailyBudgetChange fld v) = handleDailyBudgetChange fld v s"
| "apply_action s (WeeklyEntryChange d fld v) = handleWeeklyEntryChange d fld v s"
| "apply_action s ClearAll = handleClearAll s"

definition default_state :: app_state where
  \<comment> \<open>the state of a first run, on an empty store\<close>
  "default_state = initial_state \<lparr>macroDailyBudget = None, macroWeeklyEntries = None\<rparr>"

definition run :: "action list \<Rightarrow> app_state" where
  "run acts = foldl apply_action default_state acts"

definition fields_ok :: "(field \<rightharpoonup> string) \<Rightarrow> bool" where
  "fields_ok m =
     list_all (\<lambda>f. case m f of None \<Rightarrow> True | Some v \<Rightarrow> acceptInput v) FIELDS"

definition state_ok :: "app_state \<Rightarrow> bool" where
  "state_ok s =
     (fields_ok (dailyBudget s) \<and>
      list_all (\<lambda>d. case weeklyEntries s d of None \<Rightarrow> True | Some ent \<Rightarrow> fields_ok ent) DAYS)"

section \<open>Rounding to binary64\<close>

lemma pow2_pos [simp]: "0 < pow2 e"
  by (simp add: pow2_def)

lemma pow2_add: "pow2 (m + n) = pow2 m * pow2 n"
  by (simp add: pow2_def power_int_add)

lemma pow2_diff: "pow2 (m - n) = pow2 m / pow2 n"
  by (simp add: pow2_def power_int_diff)

lemma pow2_0 [simp]: "pow2 0 = 1"
  by (simp add: pow2_def)

lemma pow2_mono: "m \<le> n \<Longrightarrow> pow2 m \<le> pow2 n"
  by (simp add: pow2_def power_int_increasing)

lemma pow2_strict_mono: "m < n \<Longrightarrow> pow2 m < pow2 n"
  by (simp add: pow2_def power_int_strict_increasing)

lemma pow2_less_cancel: "pow2 m < pow2 n \<Longrightarrow> m < n"
  using pow2_mono [of n m] by (cases "m < n") auto

lemma pow2_le_cancel: "pow2 m \<le> pow2 n \<Longrightarrow> m \<le> n"
  using pow2_strict_mono [of n m] by (cases "m \<le> n") auto

lemma pow2_nonneg_int: "0 \<le> k \<Longrightarrow> pow2 k = of_int (2 ^ nat k)"
  by (simp add: pow2_def power_int_def)

lemma ilog2_bounds:
  assumes "0 < a"
  shows "pow2 (ilog2 a) \<le> a" and "a < pow2 (ilog2 a + 1)"
proof -
  have "pow2 (ilog2 a) \<le> a \<and> a < pow2 (ilog2 a + 1)"
  proof (cases "1 \<le> a")
    case True
    define f where "f = \<lfloor>a\<rfloor>"
    have f1: "1 \<le> f" using True by (simp add: f_def le_floor_iff)
    then have fpos: "0 < f" by simp
    from bitlen_bounds [OF fpos]
    have lo: "2 ^ nat (bitlen f - 1) \<le> f" and hi: "f < 2 ^ nat (bitlen f)" by simp_all
    have b1: "1 \<le> bitlen f"
      using fpos bitlen_eq_zero_iff [of f] bitlen_nonneg [of f] by linarith
    have il: "ilog2 a = bitlen f - 1" using True by (simp add: ilog2_def f_def)
    have "pow2 (bitlen f - 1) = of_int (2 ^ nat (bitlen f - 1))"
      using b1 by (intro pow2_nonneg_int) simp
    also have "\<dots> \<le> of_int f" using lo by (simp only: of_int_le_iff)
    also have "\<dots> \<le> a" by (simp add: f_def)
    finally have 1: "pow2 (ilog2 a) \<le> a" unfolding il .
    have "a < of_int (f + 1)" unfolding f_def by linarith
    also have "\<dots> \<le> of_int (2 ^ nat (bitlen f))"
    proof -
      have "f + 1 \<le> 2 ^ nat (bitlen f)" using hi by simp
      then show ?thesis by (simp only: of_int_le_iff)
    qed
    also have "\<dots> = pow2 (bitlen f)"
      using b1 by (intro pow2_nonneg_int [symmetric]) simp
    finally have 2: "a < pow2 (ilog2 a + 1)" unfolding il by simp
    from 1 2 show ?thesis ..
  next
    case False
    then have a1: "a < 1" by simp
    define c where "c = \<lceil>1 / a\<rceil>"
    have inv: "1 < 1 / a" using assms a1 by (simp add: field_simps)
    have c2: "2 \<le> c" unfolding c_def using inv by (simp add: le_ceiling_iff)
    then have cpos: "0 < c - 1" by simp
    from bitlen_bounds [OF cpos]
    have lo: "2 ^ nat (bitlen (c - 1) - 1) \<le> c - 1" and hi: "c - 1 < 2 ^ nat (bitlen (c - 1))"
      by simp_all
    define k where "k = bitlen (c - 1)"
    have k1: "1 \<le> k"
      unfolding k_def using cpos bitlen_eq_zero_iff [of "c - 1"] bitlen_nonneg [of "c - 1"]
      by linarith
    have il: "ilog2 a = - k" using False by (simp add: ilog2_def c_def k_def)
    have "1 / a \<le> of_int c" unfolding c_def by (rule le_of_int_ceiling)
    also have "\<dots> \<le> of_int (2 ^ nat k)"
    proof -
      have "c \<le> 2 ^ nat k" using hi unfolding k_def by simp
      then show ?thesis by (simp only: of_int_le_iff)
    qed
    also have "\<dots> = pow2 k" using k1 by (intro pow2_nonneg_int [symmetric]) simp
    finally have "1 / a \<le> pow2 k" .
    then have "1 / pow2 k \<le> a"
      using assms pow2_pos [of k] by (simp add: field_simps)
    moreover have "pow2 (- k) = 1 / pow2 k"
      using pow2_diff [of 0 k] by simp
    ultimately have 1: "pow2 (ilog2 a) \<le> a" unfolding il by simp
    have "pow2 (k - 1) = of_int (2 ^ nat (k - 1))"
      using k1 by (intro pow2_nonneg_int) simp
    also have "\<dots> \<le> of_int (c - 1)"
      using lo unfolding k_def by (simp only: of_int_le_iff)
    also have "\<dots> < 1 / a" unfolding c_def by (simp add: ceiling_correct)
    finally have "pow2 (k - 1) < 1 / a" .
    then have "a < 1 / pow2 (k - 1)"
      using assms pow2_pos [of "k - 1"] by (simp add: field_simps)
    moreover have "pow2 (- k + 1) = 1 / pow2 (k - 1)"
      using pow2_diff [of 0 "k - 1"] by simp
    ultimately have 2: "a < pow2 (ilog2 a + 1)" unfolding il by simp
    from 1 2 show ?thesis ..
  qed
  then show "pow2 (ilog2 a) \<le> a" and "a < pow2 (ilog2 a + 1)" by simp_all
qed

lemma ilog2_less: "0 < a \<Longrightarrow> a < pow2 k \<Longrightarrow> ilog2 a < k"
  using ilog2_bounds(1) [of a] by (intro pow2_less_cancel) simp

lemma ilog2_ge: "0 < a \<Longrightarrow> pow2 k \<le> a \<Longrightarrow> k \<le> ilog2 a"
proof -
  assume "0 < a" "pow2 k \<le> a"
  then have "pow2 k < pow2 (ilog2 a + 1)" using ilog2_bounds(2) [of a] by simp
  then have "k < ilog2 a + 1" by (rule pow2_less_cancel)
  then show ?thesis by simp
qed

lemma ilog2_unique: "0 < a \<Longrightarrow> pow2 e \<le> a \<Longrightarrow> a < pow2 (e + 1) \<Longrightarrow> ilog2 a = e"
  using ilog2_less [of a "e + 1"] ilog2_ge [of a e] by simp

lemma rte_int [simp]: "round_ties_even (of_int n) = n"
  by (simp add: round_ties_even_def)

lemma rte_ge: "of_int k \<le> m \<Longrightarrow> k \<le> round_ties_even m"
proof -
  assume "of_int k \<le> m"
  then have "k \<le> \<lfloor>m\<rfloor>" by (simp add: le_floor_iff)
  then show ?thesis by (simp add: round_ties_even_def Let_def)
qed

lemma rte_le: "m \<le> of_int k \<Longrightarrow> round_ties_even m \<le> k"
proof (cases "m = of_int k")
  case True
  then show ?thesis by simp
next
  case False
  assume "m \<le> of_int k"
  with False have "m < of_int k" by simp
  then have "\<lfloor>m\<rfloor> < k" by (simp add: floor_less_iff)
  then show ?thesis by (simp add: round_ties_even_def Let_def)
qed

lemma pow2_nonneg [simp]: "0 \<le> pow2 e"
  by (simp add: less_imp_le)

lemma expo_ge [simp]: "- 1022 \<le> expo a"
  by (simp add: expo_def)

lemma nearest_shape:
  assumes "0 < a"
  obtains n where
    "nearest a = of_int n * pow2 (expo a - 52)" "0 \<le> n" "n \<le> 2 ^ 53"
    "- 1022 \<le> ilog2 a \<longrightarrow> 2 ^ 52 \<le> n"
    "n = round_ties_even (a / pow2 (expo a - 52))"
proof -
  define e where "e = expo a"
  define m where "m = a / pow2 (e - 52)"
  define n where "n = round_ties_even m"
  have mpos: "0 \<le> m" using assms by (simp add: m_def less_imp_le)
  have n0: "0 \<le> n" unfolding n_def using mpos by (intro rte_ge) simp
  have "a < pow2 (ilog2 a + 1)" by (rule ilog2_bounds(2) [OF assms])
  also have "\<dots> \<le> pow2 (e + 1)" by (intro pow2_mono) (simp add: e_def expo_def)
  also have "\<dots> = pow2 53 * pow2 (e - 52)"
    using pow2_add [of 53 "e - 52"] by (simp add: add.commute)
  finally have "m < pow2 53" by (simp add: m_def pos_divide_less_eq)
  also have "pow2 53 = of_int (2 ^ 53)" by (simp add: pow2_nonneg_int)
  finally have "m \<le> of_int (2 ^ 53)" by simp
  then have n53: "n \<le> 2 ^ 53" unfolding n_def by (rule rte_le)
  have n52: "- 1022 \<le> ilog2 a \<longrightarrow> 2 ^ 52 \<le> n"
  proof
    assume "- 1022 \<le> ilog2 a"
    then have e: "e = ilog2 a" by (simp add: e_def expo_def)
    have "pow2 52 * pow2 (e - 52) = pow2 e"
      using pow2_add [of 52 "e - 52"] by simp
    also have "\<dots> \<le> a" unfolding e by (rule ilog2_bounds(1) [OF assms])
    finally have "pow2 52 \<le> m" by (simp add: m_def pos_le_divide_eq)
    moreover have "pow2 52 = of_int (2 ^ 52)" by (simp add: pow2_nonneg_int)
    ultimately have "of_int (2 ^ 52) \<le> m" by simp
    then show "2 ^ 52 \<le> n" unfolding n_def by (rule rte_ge)
  qed
  have r: "nearest a = of_int n * pow2 (expo a - 52)"
    by (simp add: nearest_def n_def m_def e_def)
  have nd: "n = round_ties_even (a / pow2 (expo a - 52))"
    by (simp add: n_def m_def e_def)
  show thesis by (rule that [OF r n0 n53 n52 nd])
qed

lemma nearest_nonneg: "0 < a \<Longrightarrow> 0 \<le> nearest a"
  by (erule nearest_shape) simp

lemma round64_0 [simp]: "round64 0 = Fin 0"
  by (simp add: round64_def)

lemma round64_pos:
  "0 < a \<Longrightarrow> round64 a = (if pow2 1024 \<le> nearest a then PInf else Fin (nearest a))"
  by (simp add: round64_def)

lemma round64_neg:
  "0 < a \<Longrightarrow> round64 (- a) = (if pow2 1024 \<le> nearest a then NInf else Fin (- nearest a))"
  by (simp add: round64_def)

lemma nearest_exact:
  assumes "0 < a" and "a / pow2 (expo a - 52) = of_int n"
  shows "nearest a = a"
proof -
  have "of_int n * pow2 (expo a - 52) = a"
    using assms(2) pow2_pos [of "expo a - 52"] by (simp add: field_simps)
  then show ?thesis by (simp add: nearest_def assms(2))
qed

lemma round64_exact:
  assumes "0 < a" and "a / pow2 (expo a - 52) = of_int n" and "a < pow2 1024"
  shows "round64 a = Fin a" and "round64 (- a) = Fin (- a)"
  using assms(1,3) nearest_exact [OF assms(1,2)]
  by (simp_all add: round64_pos round64_neg)

lemma is_double_0 [simp]: "is_double 0"
  by (simp add: is_double_def)

lemma is_double_minus: "is_double r \<Longrightarrow> is_double (- r)"
proof -
  assume d: "is_double r"
  consider "r = 0" | "0 < r" | "0 < - r" by linarith
  then show ?thesis
  proof cases
    case 1
    then show ?thesis by simp
  next
    case 2
    with d show ?thesis
      by (simp add: is_double_def round64_pos round64_neg split: if_splits)
  next
    case 3
    from d have "round64 (- (- r)) = Fin (- (- r))" by (simp add: is_double_def)
    with 3 show ?thesis
      unfolding is_double_def round64_pos [OF 3] round64_neg [OF 3]
      by (simp split: if_splits)
  qed
qed

lemma is_double_int:
  assumes "\<bar>i\<bar> < 2 ^ 53"
  shows "is_double (of_int i)"
proof (cases "i = 0")
  case True
  then show ?thesis by simp
next
  case False
  define a :: rat where "a = of_int \<bar>i\<bar>"
  have "1 \<le> \<bar>i\<bar>" using False by linarith
  then have "(of_int 1 :: rat) \<le> of_int \<bar>i\<bar>" by (simp only: of_int_le_iff)
  then have a1: "1 \<le> a" by (simp add: a_def)
  then have apos: "0 < a" by simp
  have "a < of_int (2 ^ 53)" unfolding a_def using assms by (simp only: of_int_less_iff)
  also have "\<dots> = pow2 53" by (simp add: pow2_nonneg_int)
  finally have a53: "a < pow2 53" .
  define e where "e = ilog2 a"
  have e0: "0 \<le> e" unfolding e_def using a1 by (intro ilog2_ge [OF apos]) simp
  have e52: "e \<le> 52" using ilog2_less [OF apos a53] by (simp add: e_def)
  have mx: "expo a = e" using e0 by (simp add: e_def expo_def)
  have "a / pow2 (e - 52) = a * pow2 (52 - e)"
    using pow2_diff [of 0 "52 - e"] pow2_diff [of 0 "e - 52"] by (simp add: field_simps)
  also have "\<dots> = of_int (\<bar>i\<bar> * 2 ^ nat (52 - e))"
    using e52 by (simp add: a_def pow2_nonneg_int)
  finally have m: "a / pow2 (expo a - 52) = of_int (\<bar>i\<bar> * 2 ^ nat (52 - e))"
    unfolding mx .
  have big: "a < pow2 1024"
    using a53 pow2_mono [of 53 1024] by simp
  have "is_double a" "is_double (- a)"
    unfolding is_double_def by (rule round64_exact [OF apos m big])+
  then show ?thesis
    by (cases "0 \<le> i") (simp_all add: a_def abs_if)
qed

lemma round64_int: "\<bar>i\<bar> < 2 ^ 53 \<Longrightarrow> round64 (of_int i) = Fin (of_int i)"
  using is_double_int by (simp add: is_double_def)

lemma nearest_overflow:
  assumes "pow2 1024 \<le> a"
  shows "pow2 1024 \<le> nearest a"
proof -
  have apos: "0 < a" using assms pow2_pos [of 1024] by linarith
  have il: "1024 \<le> ilog2 a" by (rule ilog2_ge [OF apos assms])
  then have e: "1024 \<le> expo a" by (simp add: expo_def)
  from nearest_shape [OF apos] obtain n where
    r: "nearest a = of_int n * pow2 (expo a - 52)" and
    n52: "- 1022 \<le> ilog2 a \<longrightarrow> 2 ^ 52 \<le> n" by blast
  have "(2::int) ^ 52 \<le> n" using n52 il by simp
  then have "(of_int (2 ^ 52) :: rat) \<le> of_int n" by (simp only: of_int_le_iff)
  then have "pow2 52 \<le> of_int n" by (simp add: pow2_nonneg_int)
  then have "pow2 52 * pow2 (expo a - 52) \<le> of_int n * pow2 (expo a - 52)"
    by (intro mult_right_mono) simp_all
  moreover have "pow2 52 * pow2 (expo a - 52) = pow2 (expo a)"
    using pow2_add [of 52 "expo a - 52"] by simp
  moreover have "pow2 1024 \<le> pow2 (expo a)" using e by (rule pow2_mono)
  ultimately show ?thesis unfolding r by simp
qed

lemma round64_overflow:
  assumes "pow2 1024 \<le> a"
  shows "round64 a = PInf" and "round64 (- a) = NInf"
proof -
  have apos: "0 < a" using assms pow2_pos [of 1024] by linarith
  show "round64 a = PInf" "round64 (- a) = NInf"
    using nearest_overflow [OF assms] by (simp_all add: round64_pos [OF apos] round64_neg [OF apos])
qed

lemma pow2_neq0 [simp]: "pow2 e \<noteq> 0"
  by (simp add: pow2_def)

lemma floor_rat_numeral_div [simp]:
  "\<lfloor>numeral a / numeral b :: rat\<rfloor> = numeral a div numeral b"
  using floor_divide_of_int_eq [of "numeral a" "numeral b", where ?'a = rat] by simp

lemma is_double_pos_shape:
  assumes "0 < n" and "n \<le> 2 ^ 53" and "- 1022 \<le> e"
    and "of_int n * pow2 (e - 52) < pow2 1024"
  shows "is_double (of_int n * pow2 (e - 52))"
proof -
  define u where "u = pow2 (e - 52)"
  define r where "r = of_int n * u"
  define w where "w = expo r - 52"
  have upos: "0 < u" by (simp add: u_def)
  have npos: "(0::rat) < of_int n" using assms(1) by simp
  have rpos: "0 < r" unfolding r_def using npos upos by (rule mult_pos_pos)
  have top: "pow2 53 * u = pow2 (e + 1)"
    unfolding u_def using pow2_add [of 53 "e - 52"] by (simp add: add.commute)
  have "(of_int n :: rat) \<le> of_int (2 ^ 53)" using assms(2) by (simp only: of_int_le_iff)
  then have "of_int n \<le> pow2 53" by (simp add: pow2_nonneg_int)
  then have "r \<le> pow2 53 * u" unfolding r_def using upos by (intro mult_right_mono) simp_all
  then have rle: "r \<le> pow2 (e + 1)" unfolding top .
  have big: "r < pow2 1024" using assms(4) by (simp add: r_def u_def)
  have "\<exists>k. r / pow2 w = of_int k"
  proof (cases "r < pow2 (e + 1)")
    case True
    then have "ilog2 r < e + 1" by (rule ilog2_less [OF rpos])
    then have le: "expo r \<le> e" using assms(3) by (simp add: expo_def)
    define d where "d = e - expo r"
    have d0: "0 \<le> d" using le by (simp add: d_def)
    have "u = pow2 d * pow2 w"
      unfolding u_def d_def w_def using pow2_add [of "e - expo r" "expo r - 52"] by simp
    then have "r = of_int n * pow2 d * pow2 w" by (simp add: r_def)
    then have "r / pow2 w = of_int n * pow2 d" by simp
    also have "\<dots> = of_int (n * 2 ^ nat d)" using d0 by (simp add: pow2_nonneg_int)
    finally show ?thesis by blast
  next
    case False
    with rle have req: "r = pow2 (e + 1)" by simp
    have "ilog2 r = e + 1"
      using rpos by (intro ilog2_unique) (simp_all add: req pow2_strict_mono)
    then have mx: "expo r = e + 1" using assms(3) by (simp add: expo_def)
    have wv: "w = e + 1 - 52" by (simp add: w_def mx)
    have "r = pow2 52 * pow2 w"
      unfolding req wv using pow2_add [of 52 "e + 1 - 52"] by (simp add: add.commute)
    then have "r / pow2 w = pow2 52" by simp
    also have "\<dots> = of_int (2 ^ 52)" by (simp add: pow2_nonneg_int)
    finally show ?thesis by blast
  qed
  then obtain k where "r / pow2 (expo r - 52) = of_int k" unfolding w_def ..
  from round64_exact(1) [OF rpos this big] show ?thesis
    by (simp add: is_double_def r_def u_def)
qed

lemma is_double_nearest:
  assumes "0 < a" and "nearest a < pow2 1024"
  shows "is_double (nearest a)"
proof -
  from nearest_shape [OF assms(1)] obtain n where
    r: "nearest a = of_int n * pow2 (expo a - 52)" and n0: "0 \<le> n" and n53: "n \<le> 2 ^ 53"
    by blast
  show ?thesis
  proof (cases "n = 0")
    case True
    then show ?thesis by (simp add: r)
  next
    case False
    with n0 have "0 < n" by simp
    then show ?thesis
      unfolding r using assms(2) by (intro is_double_pos_shape n53) (simp_all add: r)
  qed
qed

lemma round64_idem:
  assumes "round64 x = Fin r"
  shows "is_double r"
proof -
  consider "x = 0" | "0 < x" | "0 < - x" by linarith
  then show ?thesis
  proof cases
    case 1
    with assms show ?thesis by simp
  next
    case 2
    with assms have "r = nearest x" "nearest x < pow2 1024"
      by (simp_all add: round64_pos split: if_splits)
    then show ?thesis using is_double_nearest [OF 2] by simp
  next
    case 3
    from assms have "round64 (- (- x)) = Fin r" by simp
    then have "r = - nearest (- x)" "nearest (- x) < pow2 1024"
      unfolding round64_neg [OF 3] by (simp_all split: if_splits)
    then show ?thesis using is_double_nearest [OF 3] by (simp add: is_double_minus)
  qed
qed

lemma nearest_multiple:
  assumes "0 < a"
  shows "\<exists>k. nearest a = of_int k * pow2 (- 1074)"
proof -
  from nearest_shape [OF assms] obtain n where
    r: "nearest a = of_int n * pow2 (expo a - 52)" by blast
  have e0: "0 \<le> expo a + 1022" using expo_ge [of a] by linarith
  have "pow2 (expo a - 52) = pow2 (expo a + 1022) * pow2 (- 1074)"
    using pow2_add [of "expo a + 1022" "- 1074"] by simp
  also have "pow2 (expo a + 1022) = of_int (2 ^ nat (expo a + 1022))"
    using e0 by (rule pow2_nonneg_int)
  finally have "nearest a = of_int (n * 2 ^ nat (expo a + 1022)) * pow2 (- 1074)"
    unfolding r by simp
  then show ?thesis by blast
qed

lemma is_double_multiple:
  assumes "is_double r"
  shows "\<exists>k. r = of_int k * pow2 (- 1074)"
proof -
  consider "r = 0" | "0 < r" | "0 < - r" by linarith
  then show ?thesis
  proof cases
    case 1
    then have "r = of_int 0 * pow2 (- 1074)" by simp
    then show ?thesis by blast
  next
    case 2
    with assms have "r = nearest r"
      by (simp add: is_double_def round64_pos split: if_splits)
    then show ?thesis using nearest_multiple [OF 2] by simp
  next
    case 3
    from assms have "round64 (- (- r)) = Fin r" by (simp add: is_double_def)
    then have "r = - nearest (- r)"
      unfolding round64_neg [OF 3] by (simp split: if_splits)
    moreover from nearest_multiple [OF 3] obtain k where "nearest (- r) = of_int k * pow2 (- 1074)" ..
    ultimately have "r = of_int (- k) * pow2 (- 1074)" by simp
    then show ?thesis by blast
  qed
qed

lemma round64_negative:
  assumes "is_double b" and "is_double t" and "b < t"
  shows "round64 (b - t) = NInf \<or> (\<exists>r. r < 0 \<and> round64 (b - t) = Fin r)"
proof -
  from is_double_multiple [OF assms(1)] obtain kb where kb: "b = of_int kb * pow2 (- 1074)" ..
  from is_double_multiple [OF assms(2)] obtain kt where kt: "t = of_int kt * pow2 (- 1074)" ..
  define a where "a = t - b"
  have apos: "0 < a" using assms(3) by (simp add: a_def)
  have ak: "a = of_int (kt - kb) * pow2 (- 1074)"
    by (simp add: a_def kb kt algebra_simps)
  have "0 < (of_int (kt - kb) :: rat)"
    using apos pow2_pos [of "- 1074"] unfolding ak by (simp add: zero_less_mult_iff)
  then have k1: "1 \<le> kt - kb" by simp
  from nearest_shape [OF apos] obtain n where
    r: "nearest a = of_int n * pow2 (expo a - 52)" and
    n52: "- 1022 \<le> ilog2 a \<longrightarrow> 2 ^ 52 \<le> n" and
    n: "n = round_ties_even (a / pow2 (expo a - 52))"
    by blast
  have n1: "1 \<le> n"
  proof (cases "- 1022 \<le> ilog2 a")
    case True
    with n52 have "2 ^ 52 \<le> n" by simp
    then show ?thesis by simp
  next
    case False
    then have "expo a = - 1022" by (simp add: expo_def)
    then have "a / pow2 (expo a - 52) = of_int (kt - kb)" by (simp add: ak)
    then have "n = kt - kb" unfolding n by (simp only: rte_int)
    then show ?thesis using k1 by simp
  qed
  then have "0 < (of_int n :: rat) * pow2 (expo a - 52)" by (intro mult_pos_pos) simp_all
  then have "0 < nearest a" by (simp add: r)
  moreover have "b - t = - a" by (simp add: a_def)
  ultimately show ?thesis
    by (simp add: round64_neg [OF apos])
qed

lemma round64_nat:
  "round64 (of_nat k) = PInf \<or> (\<exists>j. round64 (of_nat k) = Fin (of_nat j))"
proof (cases "k = 0")
  case True
  then have "round64 (of_nat k) = Fin (of_nat 0)" by simp
  then show ?thesis by blast
next
  case False
  define a :: rat where "a = of_nat k"
  have a1: "1 \<le> a" using False by (simp add: a_def)
  then have apos: "0 < a" by simp
  have il: "0 \<le> ilog2 a" using a1 by (intro ilog2_ge [OF apos]) simp
  then have ee: "expo a = ilog2 a" by (simp add: expo_def)
  from nearest_shape [OF apos] obtain n where
    r: "nearest a = of_int n * pow2 (expo a - 52)" and n0: "0 \<le> n" by blast
  show ?thesis
  proof (cases "52 \<le> expo a")
    case True
    then have "pow2 (expo a - 52) = of_int (2 ^ nat (expo a - 52))"
      by (intro pow2_nonneg_int) simp
    then have "nearest a = of_int (n * 2 ^ nat (expo a - 52))" by (simp add: r)
    also have "\<dots> = of_nat (nat (n * 2 ^ nat (expo a - 52)))" using n0 by simp
    finally have "\<exists>j. nearest a = of_nat j" by blast
    then show ?thesis unfolding a_def [symmetric] round64_pos [OF apos] by auto
  next
    case False
    then have "expo a + 1 \<le> 53" by simp
    then have "a < pow2 53" using ilog2_bounds(2) [OF apos] pow2_mono [of "expo a + 1" 53]
      unfolding ee by simp
    then have "a < of_int (2 ^ 53)" by (simp add: pow2_nonneg_int)
    then have "(of_int (int k) :: rat) < of_int (2 ^ 53)" by (simp add: a_def)
    then have "int k < 2 ^ 53" by (simp only: of_int_less_iff)
    then have "round64 (of_int (int k)) = Fin (of_int (int k))"
      by (intro round64_int) simp
    then have "round64 (of_nat k) = Fin (of_nat k)" by simp
    then show ?thesis by blast
  qed
qed

text \<open>Evaluation at a concrete value, the exponent given.\<close>

lemma round64_eval:
  assumes "0 < a" and "pow2 e \<le> a" and "a < pow2 (e + 1)" and "- 1022 \<le> e"
    and "round_ties_even (a / pow2 (e - 52)) = n"
    and "of_int n * pow2 (e - 52) = r" and "r < pow2 1024"
  shows "round64 a = Fin r" and "round64 (- a) = Fin (- r)"
proof -
  have "ilog2 a = e" by (rule ilog2_unique [OF assms(1-3)])
  then have mx: "expo a = e" using assms(4) by (simp add: expo_def)
  have "nearest a = r" using assms(5,6) by (simp add: nearest_def mx)
  then show "round64 a = Fin r" "round64 (- a) = Fin (- r)"
    using assms(7) by (simp_all add: round64_pos [OF assms(1)] round64_neg [OF assms(1)])
qed

lemma round64_numeral [simp]:
  "numeral k < (9007199254740992::int) \<Longrightarrow> round64 (numeral k) = Fin (numeral k)"
  "numeral k < (9007199254740992::int) \<Longrightarrow> round64 (- numeral k) = Fin (- numeral k)"
  "round64 1 = Fin 1"
  using round64_int [of "numeral k"] round64_int [of "- numeral k"] round64_int [of 1]
  by simp_all

section \<open>Basic facts\<close>

lemmas parseFloat_eval =
  parseFloat_prop_def parseFloat_def split_sign_def is_space_def is_digit_def
  digits_val_def digit_val_def exponent_part_def pow10_def

lemma UNIV_field: "(UNIV :: field set) = set FIELDS"
  unfolding FIELDS_def by (auto intro: field.exhaust)

lemma UNIV_day: "(UNIV :: day set) = set DAYS"
  unfolding DAYS_def by (auto intro: day.exhaust)

lemma emptyWeeklyEntries_apply: "emptyWeeklyEntries d = Some emptyEntry"
  by (cases d) (simp_all add: emptyWeeklyEntries_def DAYS_def)

lemma is_digit_iff: "is_digit c \<longleftrightarrow> c \<in> set ''0123456789''"
proof -
  obtain b0 b1 b2 b3 b4 b5 b6 b7 where c: "c = Char b0 b1 b2 b3 b4 b5 b6 b7"
    by (cases c)
  show ?thesis
    unfolding c is_digit_def
    by (cases b0; cases b1; cases b2; cases b3; cases b4; cases b5; cases b6; cases b7)
       simp_all
qed

lemma digits_test_iff: "digits_test v \<longleftrightarrow> v \<noteq> [] \<and> list_all is_digit v"
  by (induction v rule: digits_test.induct) auto

lemma gate_iff: "(v = '''' \<or> digits_test v) \<longleftrightarrow> acceptInput v"
  by (auto simp: acceptInput_def digits_test_iff list_all_iff is_digit_iff)

lemma digit_not_special:
  assumes "is_digit c"
  shows "\<not> is_space c" "c \<noteq> CHR ''-''" "c \<noteq> CHR ''+''" "c \<noteq> CHR ''I''"
  using assms by (auto simp: is_digit_def is_space_def)

lemma round64_not_NaN [simp]: "round64 x \<noteq> NaN"
  by (simp add: round64_def)

lemma round64_of_nat: "n < 2 ^ 53 \<Longrightarrow> round64 (of_nat n) = Fin (of_nat n)"
proof -
  assume "n < 2 ^ 53"
  then have "int n < int (2 ^ 53)" by (simp only: of_nat_less_iff)
  then have "int n < 2 ^ 53" by simp
  then have "round64 (of_int (int n)) = Fin (of_int (int n))"
    by (intro round64_int) simp
  then show ?thesis by simp
qed

lemma js_ok_round64 [simp]: "js_ok (round64 x)"
  by (cases "round64 x") (simp_all add: round64_idem)

lemma js_ok_add [simp]: "js_ok (js_add a b)"
  by (cases a; cases b) simp_all

lemma js_ok_mul [simp]: "js_ok (js_mul a b)"
  by (cases a; cases b) (simp_all add: Let_def)

lemma js_ok_neg: "js_ok a \<Longrightarrow> js_ok (js_neg a)"
  by (cases a) (simp_all add: is_double_minus)

lemma js_ok_or0: "js_ok a \<Longrightarrow> js_ok (js_or0 a)"
  by (cases a) simp_all

lemma js_add_zero: "js_ok v \<Longrightarrow> js_add (Fin 0) v = v"
  by (cases v) (simp_all add: is_double_def)

lemma js_sub_zero: "js_ok v \<Longrightarrow> js_sub v (Fin 0) = v"
  by (cases v) (simp_all add: js_sub_def is_double_def)

lemma parseFloat_digits:
  assumes "v \<noteq> []" and "list_all is_digit v"
  shows "parseFloat v = round64 (of_nat (digits_val v))"
proof -
  from assms obtain c cs where v: "v = c # cs" and c: "is_digit c"
    by (cases v) auto
  have all: "\<forall>x \<in> set v. is_digit x" using assms(2) by (simp add: list_all_iff)
  have sp: "dropWhile is_space v = v"
    using digit_not_special(1) [OF c] by (simp add: v)
  have sg: "split_sign v = (False, v)"
    using digit_not_special(2,3) [OF c] by (simp add: v split_sign_def)
  have inf: "take 8 v \<noteq> ''Infinity''"
    using digit_not_special(4) [OF c] by (simp add: v)
  have tw: "takeWhile is_digit v = v" and dw: "dropWhile is_digit v = []"
    using all by (simp_all add: takeWhile_eq_all_conv)
  show ?thesis
    unfolding parseFloat_def sp sg
    using inf assms(1) by (simp add: tw dw exponent_part_def pow10_def)
qed

lemma js_ok_parseFloat [simp]: "js_ok (parseFloat s)"
  unfolding parseFloat_def Let_def
  by (simp split: prod.splits list.splits)

lemma js_ok_parseFloat_prop [simp]: "js_ok (parseFloat_prop v)"
  by (simp add: parseFloat_prop_def)

lemma parseFloat_double: "parseFloat_prop v = Fin q \<Longrightarrow> is_double q"
  using js_ok_parseFloat_prop [of v] by simp

lemma parseFloat_undefined: "parseFloat_prop None = NaN"
  by (simp add: parseFloat_eval)

lemma parseFloat_empty: "parseFloat_prop (Some '''') = NaN"
  by (simp add: parseFloat_eval)

lemma js_gt_not_NaN: "js_gt v w \<Longrightarrow> \<not> isNaN v"
  by (cases v) auto

lemma not_gt_zero_cases:
  "\<not> js_gt v (Fin 0) \<longleftrightarrow> isNaN v \<or> v = Fin 0 \<or> js_gt (Fin 0) v"
  by (cases v) auto

section \<open>The aggregation loop\<close>

lemma field_steps:
  "foldl (field_step ent d) (totals, emptyFields) FIELDS =
     (\<lambda>f. if js_gt (parseFloat_prop (ent f)) (Fin 0)
           then js_add (totals f) (parseFloat_prop (ent f)) else totals f,
      \<lambda>f. if js_gt (parseFloat_prop (ent f)) (Fin 0)
           then emptyFields f else emptyFields f @ [d])"
proof -
  have gt: "(\<not> isNaN v \<and> js_gt v (Fin 0)) = js_gt v (Fin 0)" for v
    using js_gt_not_NaN by blast
  let ?r = "foldl (field_step ent d) (totals, emptyFields) FIELDS"
  have t: "fst ?r f = (if js_gt (parseFloat_prop (ent f)) (Fin 0)
                       then js_add (totals f) (parseFloat_prop (ent f)) else totals f)" for f
    by (cases f) (simp_all add: FIELDS_def field_step_def Let_def gt)
  have e: "snd ?r f = (if js_gt (parseFloat_prop (ent f)) (Fin 0)
                       then emptyFields f else emptyFields f @ [d])" for f
    by (cases f) (simp_all add: FIELDS_def field_step_def Let_def gt)
  show ?thesis
    by (simp add: prod_eq_iff fun_eq_iff t e)
qed

lemma forEach_day_eq:
  "\<forall>d \<in> set ds. we d \<noteq> None \<Longrightarrow>
   forEach_day we ds (totals, emptyFields) =
     Inr (\<lambda>f. foldl js_add (totals f) (map (day_value we f) (filter (contributes we f) ds)),
          \<lambda>f. emptyFields f @ filter (\<lambda>d. \<not> contributes we f d) ds)"
proof (induction ds arbitrary: totals emptyFields)
  case Nil
  then show ?case by simp
next
  case (Cons d ds)
  then obtain ent where ent: "we d = Some ent" by auto
  have rest: "\<forall>d \<in> set ds. we d \<noteq> None" using Cons.prems by simp
  show ?case
    by (simp add: ent field_steps Cons.IH [OF rest] contributes_def day_value_def fun_eq_iff)
qed

lemma forEach_day_missing:
  "d \<in> set ds \<Longrightarrow> we d = None \<Longrightarrow> forEach_day we ds acc = Inl TypeError"
proof (induction ds arbitrary: acc)
  case Nil
  then show ?case by simp
next
  case (Cons x xs)
  show ?case
  proof (cases "we x")
    case None
    then show ?thesis by simp
  next
    case (Some ent)
    with Cons.prems have "d \<in> set xs" by auto
    then show ?thesis using Cons.IH Cons.prems(2) Some by simp
  qed
qed

lemma aggregate_missing_day: "we d = None \<Longrightarrow> aggregate we = Inl TypeError"
  unfolding aggregate_def using UNIV_day forEach_day_missing [of d DAYS we] by auto

lemma aggregate_eq:
  assumes "\<forall>d. we d \<noteq> None"
  shows "aggregate we =
     Inr (\<lambda>f. js_sum (map (day_value we f) (filter (contributes we f) DAYS)),
          \<lambda>f. filter (\<lambda>d. \<not> contributes we f d) DAYS)"
  unfolding aggregate_def js_sum_def using assms by (simp add: forEach_day_eq)

text \<open>
  C2. With all seven days present, and for each field on its own, the loop sums into
  \<open>totals\<close> the values of exactly the days whose value parses to a number greater than 0,
  and lists every other day in \<open>emptyFields\<close>, Monday to Sunday; the two sets of days are
  disjoint and together are the whole week. A day does not contribute exactly when its
  value is unparsable (as a missing one is), zero or negative.
\<close>

theorem aggregate_partition:
  assumes "\<forall>d. we d \<noteq> None"
  shows "(\<exists>totals emptyFields.
            aggregate we = Inr (totals, emptyFields) \<and>
            (\<forall>f. totals f = js_sum (map (day_value we f) (filter (contributes we f) DAYS)) \<and>
                 emptyFields f = filter (\<lambda>d. \<not> contributes we f d) DAYS \<and>
                 set (emptyFields f) \<inter> {d. contributes we f d} = {} \<and>
                 set (emptyFields f) \<union> {d. contributes we f d} = UNIV \<and>
                 distinct (emptyFields f))) \<and>
         (\<forall>f d. (\<not> contributes we f d) =
                 (isNaN (day_value we f d) \<or> day_value we f d = Fin 0 \<or>
                  js_gt (Fin 0) (day_value we f d))) \<and>
         (\<forall>f d ent. we d = Some ent \<and> ent f = None \<longrightarrow> isNaN (day_value we f d))"
proof (intro conjI allI impI)
  have dist: "distinct DAYS" by (simp add: DAYS_def)
  show "\<exists>totals emptyFields.
     aggregate we = Inr (totals, emptyFields) \<and>
     (\<forall>f. totals f = js_sum (map (day_value we f) (filter (contributes we f) DAYS)) \<and>
          emptyFields f = filter (\<lambda>d. \<not> contributes we f d) DAYS \<and>
          set (emptyFields f) \<inter> {d. contributes we f d} = {} \<and>
          set (emptyFields f) \<union> {d. contributes we f d} = UNIV \<and>
          distinct (emptyFields f))"
    unfolding aggregate_eq [OF assms] using dist UNIV_day by auto
next
  fix f d
  show "(\<not> contributes we f d) =
          (isNaN (day_value we f d) \<or> day_value we f d = Fin 0 \<or>
           js_gt (Fin 0) (day_value we f d))"
    unfolding contributes_def by (rule not_gt_zero_cases)
next
  fix f d ent
  assume "we d = Some ent \<and> ent f = None"
  then show "isNaN (day_value we f d)"
    by (simp add: day_value_def parseFloat_undefined)
qed

theorem aggregate_partition_witness:
  "(\<forall>d. (emptyWeeklyEntries(Monday \<mapsto> emptyEntry(Carbs \<mapsto> ''300''))) d \<noteq> None) \<and>
   (\<exists>totals emptyFields.
      aggregate (emptyWeeklyEntries(Monday \<mapsto> emptyEntry(Carbs \<mapsto> ''300''))) =
        Inr (totals, emptyFields) \<and>
      totals Carbs = Fin 300 \<and>
      emptyFields Carbs = [Tuesday, Wednesday, Thursday, Friday, Saturday, Sunday] \<and>
      totals Fat = Fin 0 \<and>
      emptyFields Fat = DAYS)"
proof -
  define we where "we = emptyWeeklyEntries(Monday \<mapsto> emptyEntry(Carbs \<mapsto> ''300''))"
  have present: "\<forall>d. we d \<noteq> None"
    by (simp add: we_def emptyWeeklyEntries_apply)
  have c: "contributes we Carbs d = (d = Monday)" for d
    by (simp add: we_def contributes_def day_value_def emptyWeeklyEntries_apply emptyEntry_def
        parseFloat_eval)
  have f: "contributes we Fat d = False" for d
    by (simp add: we_def contributes_def day_value_def emptyWeeklyEntries_apply emptyEntry_def
        parseFloat_eval)
  have v: "day_value we Carbs Monday = Fin 300"
    by (simp add: we_def day_value_def parseFloat_eval)
  have "\<exists>totals emptyFields.
            aggregate we = Inr (totals, emptyFields) \<and>
            (\<forall>f. totals f = js_sum (map (day_value we f) (filter (contributes we f) DAYS)) \<and>
                 emptyFields f = filter (\<lambda>d. \<not> contributes we f d) DAYS \<and>
                 set (emptyFields f) \<inter> {d. contributes we f d} = {} \<and>
                 set (emptyFields f) \<union> {d. contributes we f d} = UNIV \<and>
                 distinct (emptyFields f))"
    using aggregate_partition [OF present] by (rule conjunct1)
  then obtain totals emptyFields where
    agg: "aggregate we = Inr (totals, emptyFields)" and
    all: "\<forall>f. totals f = js_sum (map (day_value we f) (filter (contributes we f) DAYS)) \<and>
                 emptyFields f = filter (\<lambda>d. \<not> contributes we f d) DAYS \<and>
                 set (emptyFields f) \<inter> {d. contributes we f d} = {} \<and>
                 set (emptyFields f) \<union> {d. contributes we f d} = UNIV \<and>
                 distinct (emptyFields f)"
    by (elim exE conjE) (rule that)
  have tot: "totals f = js_sum (map (day_value we f) (filter (contributes we f) DAYS))"
    and emp: "emptyFields f = filter (\<lambda>d. \<not> contributes we f d) DAYS" for f
    using all by simp_all
  have 1: "totals Carbs = Fin 300"
    unfolding tot c by (simp add: DAYS_def js_sum_def v)
  have 2: "emptyFields Carbs = [Tuesday, Wednesday, Thursday, Friday, Saturday, Sunday]"
    unfolding emp c by (simp add: DAYS_def)
  have 3: "totals Fat = Fin 0"
    unfolding tot f by (simp add: js_sum_def)
  have 4: "emptyFields Fat = DAYS"
    unfolding emp f by simp
  have "\<exists>totals emptyFields.
      aggregate we = Inr (totals, emptyFields) \<and>
      totals Carbs = Fin 300 \<and>
      emptyFields Carbs = [Tuesday, Wednesday, Thursday, Friday, Saturday, Sunday] \<and>
      totals Fat = Fin 0 \<and>
      emptyFields Fat = DAYS"
    using agg 1 2 3 4 by (intro exI conjI)
  with present show ?thesis unfolding we_def by (intro conjI)
qed

section \<open>The input gate\<close>

text \<open>
  C5. Both change handlers apply a text exactly when it is empty or made of one or more
  ASCII digits: then the field holds the new text; any other text leaves the whole state
  as it was.
\<close>

theorem input_gate:
  "(acceptInput v \<longrightarrow>
      handleDailyBudgetChange fld v s = s\<lparr>dailyBudget := (dailyBudget s)(fld \<mapsto> v)\<rparr> \<and>
      dailyBudget (handleDailyBudgetChange fld v s) fld = Some v) \<and>
   (\<not> acceptInput v \<longrightarrow> handleDailyBudgetChange fld v s = s) \<and>
   (acceptInput v \<longrightarrow>
      (\<exists>ent. weeklyEntries (handleWeeklyEntryChange d fld v s) d = Some ent \<and>
             ent fld = Some v)) \<and>
   (\<not> acceptInput v \<longrightarrow> handleWeeklyEntryChange d fld v s = s)"
  unfolding handleDailyBudgetChange_def handleWeeklyEntryChange_def gate_iff
  by simp

theorem input_gate_witness:
  "acceptInput ''10'' \<and>
   \<not> acceptInput ''12.5'' \<and>
   dailyBudget (handleDailyBudgetChange Carbs ''10'' default_state) Carbs = Some ''10'' \<and>
   dailyBudget (handleDailyBudgetChange Carbs ''12.5''
                  (handleDailyBudgetChange Carbs ''10'' default_state)) Carbs = Some ''10'' \<and>
   handleWeeklyEntryChange Monday Fat ''12.5''
     (handleWeeklyEntryChange Monday Fat ''10'' default_state) =
   handleWeeklyEntryChange Monday Fat ''10'' default_state"
proof -
  have a: "acceptInput ''10''" and r: "\<not> acceptInput ''12.5''"
    by (simp_all add: acceptInput_def)
  let ?s = "handleDailyBudgetChange Carbs ''10'' default_state"
  let ?w = "handleWeeklyEntryChange Monday Fat ''10'' default_state"
  have 1: "dailyBudget ?s Carbs = Some ''10''"
    using input_gate [of "''10''" Carbs default_state] a by simp
  have 2: "handleDailyBudgetChange Carbs ''12.5'' ?s = ?s"
    using input_gate [of "''12.5''" Carbs ?s] r by simp
  have 3: "handleWeeklyEntryChange Monday Fat ''12.5'' ?w = ?w"
    using input_gate [of "''12.5''" Fat ?w Monday] r by blast
  show ?thesis using a r 1 2 3 by simp
qed

section \<open>Rounding and the placeholder\<close>

lemma floor_bounds: "of_int \<lfloor>x\<rfloor> \<le> (x::rat)" "(x::rat) < of_int \<lfloor>x\<rfloor> + 1"
  by linarith+

lemma math_round_rat_eq: "math_round_rat q = round_half_up q"
proof (cases "q + 1 / 2 < of_int \<lfloor>q\<rfloor> + 1")
  case True
  have "\<lfloor>q + 1 / 2\<rfloor> = \<lfloor>q\<rfloor>"
    using True floor_bounds [of q] by (intro floor_unique; linarith)
  moreover have "q - of_int \<lfloor>q\<rfloor> < of_int \<lfloor>q\<rfloor> + 1 - q"
    using True by linarith
  ultimately show ?thesis
    by (simp add: math_round_rat_def round_half_up_def Let_def)
next
  case False
  have "\<lfloor>q + 1 / 2\<rfloor> = \<lfloor>q\<rfloor> + 1"
    using False floor_bounds [of q]
    by (intro floor_unique; simp only: of_int_add of_int_1; linarith)
  moreover have "\<not> q - of_int \<lfloor>q\<rfloor> < of_int \<lfloor>q\<rfloor> + 1 - q"
    using False by linarith
  ultimately show ?thesis
    by (simp add: math_round_rat_def round_half_up_def Let_def)
qed

lemma round_half_up_near:
  "- (1 / 2) < round_half_up q - q \<and> round_half_up q - q \<le> 1 / 2"
  unfolding round_half_up_def using floor_bounds [of "q + 1 / 2"] by linarith

lemma round_half_up_away:
  assumes "0 \<le> q \<or> q - of_int \<lfloor>q\<rfloor> \<noteq> 1 / 2"
  shows "round_half_up q = round_half_away q"
proof (cases "0 \<le> q")
  case True
  have "\<lfloor>1 / 2 :: rat\<rfloor> = 0"
    by (intro floor_unique; simp)
  with True show ?thesis
    by (cases "q = 0") (simp_all add: round_half_up_def round_half_away_def sgn_if)
next
  case False
  with assms have nt: "q - of_int \<lfloor>q\<rfloor> \<noteq> 1 / 2" by simp
  have neg: "q < 0" using False by simp
  let ?k = "\<lfloor>q + 1 / 2\<rfloor>"
  have b: "of_int ?k \<le> q + 1 / 2" "q + 1 / 2 < of_int ?k + 1"
    using floor_bounds [of "q + 1 / 2"] by simp_all
  have ne: "of_int ?k \<noteq> q + 1 / 2"
  proof
    assume e: "of_int ?k = q + 1 / 2"
    have fl: "\<lfloor>q\<rfloor> = ?k - 1"
      using e by (intro floor_unique; simp only: of_int_diff of_int_1; linarith)
    from nt have "q - of_int (?k - 1) \<noteq> 1 / 2" unfolding fl .
    with e show False unfolding of_int_diff of_int_1 by linarith
  qed
  have "\<lfloor>- q + 1 / 2\<rfloor> = - ?k"
    using b ne by (intro floor_unique; simp only: of_int_minus; linarith)
  then show ?thesis
    using neg by (simp add: round_half_up_def round_half_away_def sgn_if abs_if)
qed

lemma round_half_up_even:
  assumes "q - of_int \<lfloor>q\<rfloor> \<noteq> 1 / 2"
  shows "round_half_up q = round_half_even q"
proof -
  have "math_round_rat q = round_half_even q"
    using assms unfolding math_round_rat_def round_half_even_def Let_def
    by (auto simp: not_less)
  then show ?thesis by (simp add: math_round_rat_eq)
qed

lemma round_half_up_tie:
  assumes "x - of_int \<lfloor>x\<rfloor> = 1 / 2"
  shows "round_half_up x = of_int \<lfloor>x\<rfloor> + 1"
proof -
  have "\<lfloor>x + 1 / 2\<rfloor> = \<lfloor>x\<rfloor> + 1"
    using assms by (intro floor_unique; simp only: of_int_add of_int_1; linarith)
  then show ?thesis by (simp add: round_half_up_def)
qed

lemma round_half_even_tie:
  assumes "x - of_int \<lfloor>x\<rfloor> = 1 / 2" and "even \<lfloor>x\<rfloor>"
  shows "round_half_even x = of_int \<lfloor>x\<rfloor>"
  using assms by (simp add: round_half_even_def Let_def)

lemma round_half_away_tie:
  assumes "x - of_int \<lfloor>x\<rfloor> = 1 / 2" and "x < 0"
  shows "round_half_away x = of_int \<lfloor>x\<rfloor>"
proof -
  have "- x + 1 / 2 = of_int (- \<lfloor>x\<rfloor>)" using assms(1) by simp
  then have "\<lfloor>- x + 1 / 2\<rfloor> = - \<lfloor>x\<rfloor>" by (simp only: floor_of_int)
  then show ?thesis using assms(2) by (simp add: round_half_away_def sgn_if abs_if)
qed

lemma default_weeklyBudget:
  "weeklyBudget DEFAULT_DAILY_BUDGET Calories = Fin 14735"
  "weeklyBudget DEFAULT_DAILY_BUDGET Carbs = Fin 1890"
  "weeklyBudget DEFAULT_DAILY_BUDGET Protein = Fin 770"
  "weeklyBudget DEFAULT_DAILY_BUDGET Fat = Fin 455"
  by (simp_all add: weeklyBudget_def calculateCalories_def DEFAULT_DAILY_BUDGET_def
      parseFloat_eval)

lemma monday_carbs_aggregate:
  assumes "parseFloat v = Fin q" and "0 < q"
  shows "aggregate (emptyWeeklyEntries(Monday \<mapsto> emptyEntry(Carbs \<mapsto> v))) =
           Inr (\<lambda>f. if f = Carbs then Fin q else Fin 0,
                \<lambda>f. if f = Carbs then [Tuesday, Wednesday, Thursday, Friday, Saturday, Sunday]
                     else DAYS)"
proof -
  define we where "we = emptyWeeklyEntries(Monday \<mapsto> emptyEntry(Carbs \<mapsto> v))"
  have present: "\<forall>d. we d \<noteq> None"
    by (simp add: we_def emptyWeeklyEntries_apply)
  have other: "parseFloat_prop (emptyEntry f) = NaN" for f
    by (cases f) (simp_all add: emptyEntry_def parseFloat_empty)
  have val: "day_value we f d = (if f = Carbs \<and> d = Monday then Fin q else NaN)" for f d
    using assms(1) by (simp add: we_def day_value_def emptyWeeklyEntries_apply other)
      (simp add: parseFloat_prop_def)
  have c: "contributes we f d = (f = Carbs \<and> d = Monday)" for f d
    using assms(2) by (simp add: contributes_def val)
  have "parseFloat_prop (Some v) = Fin q" using assms(1) by (simp add: parseFloat_prop_def)
  then have dq: "round64 q = Fin q" using parseFloat_double by (simp add: is_double_def)
  have "aggregate we =
     Inr (\<lambda>f. js_sum (map (day_value we f) (filter (contributes we f) DAYS)),
          \<lambda>f. filter (\<lambda>d. \<not> contributes we f d) DAYS)"
    by (rule aggregate_eq [OF present])
  also have "(\<lambda>f. js_sum (map (day_value we f) (filter (contributes we f) DAYS))) =
             (\<lambda>f. if f = Carbs then Fin q else Fin 0)"
    by (rule ext) (simp add: c val DAYS_def js_sum_def dq)
  also have "(\<lambda>f. filter (\<lambda>d. \<not> contributes we f d) DAYS) =
             (\<lambda>f. if f = Carbs then [Tuesday, Wednesday, Thursday, Friday, Saturday, Sunday]
                   else DAYS)"
    by (rule ext) (simp add: c DAYS_def)
  finally show ?thesis unfolding we_def .
qed

lemma monday_carbs_remaining:
  assumes "parseFloat v = Fin q" and "0 < q"
  shows "calculateRemaining DEFAULT_DAILY_BUDGET
           (emptyWeeklyEntries(Monday \<mapsto> emptyEntry(Carbs \<mapsto> v))) = Inr (rem, ph) \<Longrightarrow>
         rem Carbs = js_sub (Fin 1890) (Fin q) \<and>
         ph Carbs = math_round (js_div (js_sub (Fin 1890) (Fin q)) (Fin 6))"
    and "\<exists>rem ph. calculateRemaining DEFAULT_DAILY_BUDGET
           (emptyWeeklyEntries(Monday \<mapsto> emptyEntry(Carbs \<mapsto> v))) = Inr (rem, ph)"
  unfolding calculateRemaining_def monday_carbs_aggregate [OF assms]
  by (auto simp: Let_def remaining_def getPlaceholder_def default_weeklyBudget)

lemma round64_halves:
  "round64 (5 / 2) = Fin (5 / 2)" "round64 (- (5 / 2)) = Fin (- (5 / 2))"
  using round64_eval [of "5 / 2" 1 5629499534213120 "5 / 2"]
  by (simp_all add: pow2_def round_ties_even_def Let_def)

lemma round64_fifth:
  "round64 (5629499534213122 / 5) = Fin (2251799813685249 / 2)"
  using round64_eval(1) [of "5629499534213122 / 5" 50 4503599627370498 "2251799813685249 / 2"]
  by (simp add: pow2_def round_ties_even_def Let_def)

text \<open>
  C1, as amended. With no empty day the placeholder is 0. Otherwise it is \<open>Math.round\<close>
  of the quotient that the division gives, a binary64 value \<open>x\<close>: the nearest integer,
  a tie going to the integer nearer to \<open>+\<infinity>\<close>. That is rounding half away from zero
  unless \<open>x\<close> is a negative tie, where the two differ, and it is rounding half to even
  unless \<open>x\<close> is a tie above an even integer, where the two differ. Where the exact
  quotient is itself a binary64 value, it is that quotient which is rounded.
\<close>

theorem placeholder_half_up:
  "(emptyFields fld = [] \<longrightarrow> getPlaceholder emptyFields rem fld = Fin 0) \<and>
   (emptyFields fld \<noteq> [] \<and>
    js_div (rem fld) (Fin (of_nat (length (emptyFields fld)))) = Fin x \<longrightarrow>
      getPlaceholder emptyFields rem fld = Fin (round_half_up x) \<and>
      - (1 / 2) < round_half_up x - x \<and> round_half_up x - x \<le> 1 / 2 \<and>
      ((0 \<le> x \<or> x - of_int \<lfloor>x\<rfloor> \<noteq> 1 / 2) \<longrightarrow> round_half_up x = round_half_away x) \<and>
      (x - of_int \<lfloor>x\<rfloor> \<noteq> 1 / 2 \<longrightarrow> round_half_up x = round_half_even x) \<and>
      (x < 0 \<and> x - of_int \<lfloor>x\<rfloor> = 1 / 2 \<longrightarrow> round_half_up x \<noteq> round_half_away x) \<and>
      (x - of_int \<lfloor>x\<rfloor> = 1 / 2 \<and> even \<lfloor>x\<rfloor> \<longrightarrow> round_half_up x \<noteq> round_half_even x)) \<and>
   (emptyFields fld \<noteq> [] \<and> rem fld = Fin r \<and>
    is_double (r / of_nat (length (emptyFields fld))) \<longrightarrow>
      getPlaceholder emptyFields rem fld =
        Fin (round_half_up (r / of_nat (length (emptyFields fld)))))"
proof (intro conjI impI)
  assume "emptyFields fld = []"
  then show "getPlaceholder emptyFields rem fld = Fin 0"
    by (simp add: getPlaceholder_def)
next
  assume h: "emptyFields fld \<noteq> [] \<and>
    js_div (rem fld) (Fin (of_nat (length (emptyFields fld)))) = Fin x"
  then show "getPlaceholder emptyFields rem fld = Fin (round_half_up x)"
    by (simp add: getPlaceholder_def Let_def math_round_rat_eq)
  show "- (1 / 2) < round_half_up x - x" "round_half_up x - x \<le> 1 / 2"
    using round_half_up_near [of x] by simp_all
  {
    assume "0 \<le> x \<or> x - of_int \<lfloor>x\<rfloor> \<noteq> 1 / 2"
    then show "round_half_up x = round_half_away x" by (rule round_half_up_away)
  }
  {
    assume "x - of_int \<lfloor>x\<rfloor> \<noteq> 1 / 2"
    then show "round_half_up x = round_half_even x" by (rule round_half_up_even)
  }
  {
    assume "x < 0 \<and> x - of_int \<lfloor>x\<rfloor> = 1 / 2"
    then show "round_half_up x \<noteq> round_half_away x"
      by (simp add: round_half_up_tie round_half_away_tie)
  }
  {
    assume "x - of_int \<lfloor>x\<rfloor> = 1 / 2 \<and> even \<lfloor>x\<rfloor>"
    then show "round_half_up x \<noteq> round_half_even x"
      by (simp add: round_half_up_tie round_half_even_tie)
  }
next
  assume h: "emptyFields fld \<noteq> [] \<and> rem fld = Fin r \<and>
    is_double (r / of_nat (length (emptyFields fld)))"
  then have "js_div (rem fld) (Fin (of_nat (length (emptyFields fld)))) =
             Fin (r / of_nat (length (emptyFields fld)))"
    by (simp add: is_double_def)
  with h show "getPlaceholder emptyFields rem fld =
        Fin (round_half_up (r / of_nat (length (emptyFields fld))))"
    by (simp add: getPlaceholder_def Let_def math_round_rat_eq)
qed

theorem placeholder_half_up_witness:
  "getPlaceholder (\<lambda>f. []) (\<lambda>f. Fin 1590) Carbs = Fin 0 \<and>
   getPlaceholder (\<lambda>f. [Tuesday, Wednesday, Thursday, Friday, Saturday, Sunday])
     (\<lambda>f. Fin 1590) Carbs = Fin 265 \<and>
   round_half_away 265 = 265 \<and> round_half_even 265 = 265 \<and>
   getPlaceholder (\<lambda>f. [Wednesday, Thursday, Friday, Saturday, Sunday])
     (\<lambda>f. Fin 5629499534213122) Carbs = Fin 1125899906842625"
proof -
  define six where "six = (\<lambda>f::field. [Tuesday, Wednesday, Thursday, Friday, Saturday, Sunday])"
  define five where "five = (\<lambda>f::field. [Wednesday, Thursday, Friday, Saturday, Sunday])"
  have r: "round_half_up 265 = 265"
    by (simp add: round_half_up_def)
  have q: "round_half_up (2251799813685249 / 2) = 1125899906842625"
    by (simp add: round_half_up_def)
  have d6: "js_div (Fin 1590) (Fin (of_nat (length (six Carbs)))) = Fin 265"
    by (simp add: six_def)
  have d5: "js_div (Fin 5629499534213122) (Fin (of_nat (length (five Carbs)))) =
            Fin (2251799813685249 / 2)"
    by (simp add: five_def round64_fifth)
  have 1: "getPlaceholder (\<lambda>f. []) (\<lambda>f. Fin 1590) Carbs = Fin 0"
    using placeholder_half_up [of "\<lambda>f. []" Carbs "\<lambda>f. Fin 1590"] by simp
  have t6: "(265::rat) - of_int \<lfloor>265::rat\<rfloor> \<noteq> 1 / 2" by simp
  have 2: "getPlaceholder six (\<lambda>f. Fin 1590) Carbs = Fin 265 \<and>
           round_half_away 265 = 265 \<and> round_half_even 265 = 265"
    using placeholder_half_up [of six Carbs "\<lambda>f. Fin 1590" 265] d6 t6
    by (simp add: six_def r)
  have 3: "getPlaceholder five (\<lambda>f. Fin 5629499534213122) Carbs = Fin 1125899906842625"
    using placeholder_half_up [of five Carbs "\<lambda>f. Fin 5629499534213122" "2251799813685249 / 2"]
      d5 by (simp add: five_def q)
  show ?thesis using 1 2 3 unfolding six_def five_def by (intro conjI) simp_all
qed

text \<open>
  C1, as stated, fails: the rounding is neither of the two conventions on all inputs.
  With the default budget (1890 g of carbs a week) and Monday's carbs alone filled in,
  six days are empty: carbs of 1905 leave -15, a quotient of -2.5, and the placeholder
  is -2, where rounding half away from zero gives -3; carbs of 1875 leave 15, a quotient
  of 2.5, and the placeholder is 3, where rounding half to even gives 2.
\<close>

theorem placeholder_convention_counterexample:
  "(case calculateRemaining DEFAULT_DAILY_BUDGET
           (emptyWeeklyEntries(Monday \<mapsto> emptyEntry(Carbs \<mapsto> ''1905''))) of
      Inl e \<Rightarrow> False
    | Inr (rem, ph) \<Rightarrow>
        rem Carbs = Fin (- 15) \<and> ph Carbs = Fin (- 2) \<and>
        ph Carbs \<noteq> Fin (round_half_away (- 15 / 6))) \<and>
   (case calculateRemaining DEFAULT_DAILY_BUDGET
           (emptyWeeklyEntries(Monday \<mapsto> emptyEntry(Carbs \<mapsto> ''1875''))) of
      Inl e \<Rightarrow> False
    | Inr (rem, ph) \<Rightarrow>
        rem Carbs = Fin 15 \<and> ph Carbs = Fin 3 \<and>
        ph Carbs \<noteq> Fin (round_half_even (15 / 6)))"
proof -
  have p1: "parseFloat ''1905'' = Fin 1905" and p2: "parseFloat ''1875'' = Fin 1875"
    by (simp_all add: parseFloat_eval)
  have f1: "\<lfloor>- 2 :: rat\<rfloor> = - 2" and f2: "\<lfloor>3 :: rat\<rfloor> = 3"
    and f3: "\<lfloor>- (5 / 2) :: rat\<rfloor> = - 3" and f4: "\<lfloor>5 / 2 :: rat\<rfloor> = 2"
    by (intro floor_unique; simp)+
  have u1: "round_half_up (- (5 / 2)) = - 2" and u2: "round_half_up (5 / 2) = 3"
    using f1 f2 by (simp_all add: round_half_up_def)
  have a: "round_half_away (- (5 / 2)) = - 3"
    using f2 by (simp add: round_half_away_def)
  have e: "round_half_even (5 / 2) = 2"
    using f4 by (simp add: round_half_even_def Let_def)
  have s1: "js_sub (Fin 1890) (Fin 1905) = Fin (- 15)"
    and s2: "js_sub (Fin 1890) (Fin 1875) = Fin 15"
    by (simp_all add: js_sub_def)
  have d1: "js_div (Fin (- 15)) (Fin 6) = Fin (- (5 / 2))"
    and d2: "js_div (Fin 15) (Fin 6) = Fin (5 / 2)"
    by (simp_all add: round64_halves)
  obtain rem1 ph1 where c1: "calculateRemaining DEFAULT_DAILY_BUDGET
           (emptyWeeklyEntries(Monday \<mapsto> emptyEntry(Carbs \<mapsto> ''1905''))) = Inr (rem1, ph1)"
    using monday_carbs_remaining(2) [OF p1] by auto
  obtain rem2 ph2 where c2: "calculateRemaining DEFAULT_DAILY_BUDGET
           (emptyWeeklyEntries(Monday \<mapsto> emptyEntry(Carbs \<mapsto> ''1875''))) = Inr (rem2, ph2)"
    using monday_carbs_remaining(2) [OF p2] by auto
  have "rem1 Carbs = Fin (- 15) \<and> ph1 Carbs = Fin (- 2)"
    using monday_carbs_remaining(1) [OF p1 _ c1] u1
    by (simp add: s1 d1 math_round_rat_eq round64_halves)
  moreover have "rem2 Carbs = Fin 15 \<and> ph2 Carbs = Fin 3"
    using monday_carbs_remaining(1) [OF p2 _ c2] u2
    by (simp add: s2 d2 math_round_rat_eq round64_halves)
  ultimately show ?thesis
    unfolding c1 c2 by (simp add: a e)
qed

section \<open>Derived calories, weekly budget and remaining amount\<close>

lemma js_or0_eq: "js_or0 v = (if isNaN v then Fin 0 else v)"
  by (cases v) auto

lemma js_mul_commute: "js_mul a b = js_mul b a"
  by (cases a; cases b) (simp_all add: mult.commute)

lemma js_or0_times7: "js_or0 (js_mul v (Fin 7)) = js_mul (Fin 7) (if isNaN v then Fin 0 else v)"
proof (cases v)
  case (Fin a)
  have "\<not> isNaN (round64 (a * 7))" by (cases "round64 (a * 7)") simp_all
  then show ?thesis by (simp add: Fin js_or0_eq mult.commute)
qed simp_all

lemma js_mul_nat:
  "m * n < 2 ^ 53 \<Longrightarrow> js_mul (Fin (of_nat m)) (Fin (of_nat n)) = Fin (of_nat (m * n))"
  using round64_of_nat [of "m * n"] by simp

lemma js_add_nat:
  "m + n < 2 ^ 53 \<Longrightarrow> js_add (Fin (of_nat m)) (Fin (of_nat n)) = Fin (of_nat (m + n))"
  using round64_of_nat [of "m + n"] by simp

lemma calculateCalories_eq:
  "calculateCalories c p f =
     js_add (js_add (js_mul (Fin 4) (parsed_or_zero c)) (js_mul (Fin 4) (parsed_or_zero p)))
            (js_mul (Fin 9) (parsed_or_zero f))"
  unfolding calculateCalories_def Let_def parsed_or_zero_def js_or0_eq
  by (simp only: js_mul_commute [of _ "Fin 4"] js_mul_commute [of _ "Fin 9"])

lemma calculateCalories_nat:
  assumes "parsed_or_zero c = Fin (of_nat x)" and "parsed_or_zero p = Fin (of_nat y)"
    and "parsed_or_zero f = Fin (of_nat z)" and "4 * x + 4 * y + 9 * z < 2 ^ 53"
  shows "calculateCalories c p f = Fin (of_nat (4 * x + 4 * y + 9 * z))"
proof -
  have four: "Fin 4 = Fin (of_nat 4)" and nine: "Fin 9 = Fin (of_nat 9)" by simp_all
  have 1: "js_mul (Fin 4) (Fin (of_nat x)) = Fin (of_nat (4 * x))"
    unfolding four using assms(4) by (intro js_mul_nat) simp
  have 2: "js_mul (Fin 4) (Fin (of_nat y)) = Fin (of_nat (4 * y))"
    unfolding four using assms(4) by (intro js_mul_nat) simp
  have 3: "js_mul (Fin 9) (Fin (of_nat z)) = Fin (of_nat (9 * z))"
    unfolding nine using assms(4) by (intro js_mul_nat) simp
  have 4: "js_add (Fin (of_nat (4 * x))) (Fin (of_nat (4 * y))) = Fin (of_nat (4 * x + 4 * y))"
    using assms(4) by (intro js_add_nat) simp
  have 5: "js_add (Fin (of_nat (4 * x + 4 * y))) (Fin (of_nat (9 * z))) =
           Fin (of_nat (4 * x + 4 * y + 9 * z))"
    using assms(4) by (intro js_add_nat) simp
  show ?thesis
    unfolding calculateCalories_eq assms(1-3) 1 2 3 4 5 ..
qed

lemma weeklyBudget_eq:
  "weeklyBudget db Carbs = js_mul (Fin 7) (parsed_or_zero (db Carbs))"
  "weeklyBudget db Protein = js_mul (Fin 7) (parsed_or_zero (db Protein))"
  "weeklyBudget db Fat = js_mul (Fin 7) (parsed_or_zero (db Fat))"
  "weeklyBudget db Calories =
     js_mul (Fin 7) (calculateCalories (db Carbs) (db Protein) (db Fat))"
  by (simp_all add: weeklyBudget_def js_or0_times7 parsed_or_zero_def
      js_mul_commute [of "calculateCalories (db Carbs) (db Protein) (db Fat)" "Fin 7"])

lemma times7_nat: "7 * n < 2 ^ 53 \<Longrightarrow> js_mul (Fin 7) (Fin (of_nat n)) = Fin (of_nat (7 * n))"
proof -
  assume "7 * n < 2 ^ 53"
  then have "js_mul (Fin (of_nat 7)) (Fin (of_nat n)) = Fin (of_nat (7 * n))"
    by (rule js_mul_nat)
  then show ?thesis by simp
qed

text \<open>
  C3, as amended. The derived calories are 4 times the carbs plus 4 times the protein
  plus 9 times the fat, each quantity parsed from its text with an unparsable or missing
  one counting as 0; the weekly budget of carbs, protein and fat is 7 times the parsed
  daily quantity, and its calories are 7 times the derived calories. The products and
  sums are those of binary64 arithmetic, each rounded to the nearest Number; for whole
  quantities the derived calories are the exact integer when that is below \<open>2^53\<close>, and
  the four weekly values are the exact integers when the weekly calories are below
  \<open>2^53\<close>.
\<close>

theorem calories_and_weekly_budget:
  "calculateCalories c p f =
     js_add (js_add (js_mul (Fin 4) (parsed_or_zero c)) (js_mul (Fin 4) (parsed_or_zero p)))
            (js_mul (Fin 9) (parsed_or_zero f)) \<and>
   (parsed_or_zero c = Fin (of_nat x) \<and> parsed_or_zero p = Fin (of_nat y) \<and>
    parsed_or_zero f = Fin (of_nat z) \<and> 4 * x + 4 * y + 9 * z < 2 ^ 53 \<longrightarrow>
      calculateCalories c p f = Fin (of_nat (4 * x + 4 * y + 9 * z))) \<and>
   weeklyBudget db Carbs = js_mul (Fin 7) (parsed_or_zero (db Carbs)) \<and>
   weeklyBudget db Protein = js_mul (Fin 7) (parsed_or_zero (db Protein)) \<and>
   weeklyBudget db Fat = js_mul (Fin 7) (parsed_or_zero (db Fat)) \<and>
   weeklyBudget db Calories =
     js_mul (Fin 7) (calculateCalories (db Carbs) (db Protein) (db Fat)) \<and>
   (parsed_or_zero (db Carbs) = Fin (of_nat x) \<and> parsed_or_zero (db Protein) = Fin (of_nat y) \<and>
    parsed_or_zero (db Fat) = Fin (of_nat z) \<and> 7 * (4 * x + 4 * y + 9 * z) < 2 ^ 53 \<longrightarrow>
      weeklyBudget db Carbs = Fin (of_nat (7 * x)) \<and>
      weeklyBudget db Protein = Fin (of_nat (7 * y)) \<and>
      weeklyBudget db Fat = Fin (of_nat (7 * z)) \<and>
      weeklyBudget db Calories = Fin (of_nat (7 * (4 * x + 4 * y + 9 * z))))"
proof (intro conjI impI)
  show "calculateCalories c p f =
     js_add (js_add (js_mul (Fin 4) (parsed_or_zero c)) (js_mul (Fin 4) (parsed_or_zero p)))
            (js_mul (Fin 9) (parsed_or_zero f))"
    by (rule calculateCalories_eq)
next
  assume "parsed_or_zero c = Fin (of_nat x) \<and> parsed_or_zero p = Fin (of_nat y) \<and>
    parsed_or_zero f = Fin (of_nat z) \<and> 4 * x + 4 * y + 9 * z < 2 ^ 53"
  then show "calculateCalories c p f = Fin (of_nat (4 * x + 4 * y + 9 * z))"
    by (intro calculateCalories_nat) (elim conjE, assumption)+
next
  show "weeklyBudget db Carbs = js_mul (Fin 7) (parsed_or_zero (db Carbs))"
    "weeklyBudget db Protein = js_mul (Fin 7) (parsed_or_zero (db Protein))"
    "weeklyBudget db Fat = js_mul (Fin 7) (parsed_or_zero (db Fat))"
    "weeklyBudget db Calories =
       js_mul (Fin 7) (calculateCalories (db Carbs) (db Protein) (db Fat))"
    by (rule weeklyBudget_eq)+
next
  assume h: "parsed_or_zero (db Carbs) = Fin (of_nat x) \<and>
    parsed_or_zero (db Protein) = Fin (of_nat y) \<and>
    parsed_or_zero (db Fat) = Fin (of_nat z) \<and> 7 * (4 * x + 4 * y + 9 * z) < 2 ^ 53"
  then have b: "7 * (4 * x + 4 * y + 9 * z) < 2 ^ 53" by simp
  from h show "weeklyBudget db Carbs = Fin (of_nat (7 * x))"
    unfolding weeklyBudget_eq using b by (simp only:) (intro times7_nat, simp)
  from h show "weeklyBudget db Protein = Fin (of_nat (7 * y))"
    unfolding weeklyBudget_eq using b by (simp only:) (intro times7_nat, simp)
  from h show "weeklyBudget db Fat = Fin (of_nat (7 * z))"
    unfolding weeklyBudget_eq using b by (simp only:) (intro times7_nat, simp)
  have "calculateCalories (db Carbs) (db Protein) (db Fat) = Fin (of_nat (4 * x + 4 * y + 9 * z))"
    using h b by (intro calculateCalories_nat) simp_all
  then show "weeklyBudget db Calories = Fin (of_nat (7 * (4 * x + 4 * y + 9 * z)))"
    unfolding weeklyBudget_eq using b by (simp only:) (intro times7_nat)
qed

theorem calories_and_weekly_budget_witness:
  "parsed_or_zero (Some ''270'') = Fin 270 \<and>
   parsed_or_zero (Some ''110'') = Fin 110 \<and>
   parsed_or_zero (Some ''65'') = Fin 65 \<and>
   calculateCalories (Some ''270'') (Some ''110'') (Some ''65'') = Fin 2105 \<and>
   weeklyBudget DEFAULT_DAILY_BUDGET Calories = Fin 14735 \<and>
   weeklyBudget DEFAULT_DAILY_BUDGET Carbs = Fin 1890 \<and>
   calculateCalories (Some ''abc'') None (Some ''1'') = Fin 9"
proof -
  have p: "parsed_or_zero (Some ''270'') = Fin (of_nat 270)"
    "parsed_or_zero (Some ''110'') = Fin (of_nat 110)"
    "parsed_or_zero (Some ''65'') = Fin (of_nat 65)"
    "parsed_or_zero (Some ''abc'') = Fin (of_nat 0)"
    "parsed_or_zero None = Fin (of_nat 0)" "parsed_or_zero (Some ''1'') = Fin (of_nat 1)"
    by (simp_all add: parsed_or_zero_def parseFloat_eval)
  have d: "DEFAULT_DAILY_BUDGET Carbs = Some ''270''" "DEFAULT_DAILY_BUDGET Protein = Some ''110''"
    "DEFAULT_DAILY_BUDGET Fat = Some ''65''"
    by (simp_all add: DEFAULT_DAILY_BUDGET_def)
  note T = calories_and_weekly_budget
    [of "Some ''270''" "Some ''110''" "Some ''65''" 270 110 65 DEFAULT_DAILY_BUDGET]
  have c: "calculateCalories (Some ''270'') (Some ''110'') (Some ''65'') = Fin 2105"
    using T p by simp
  have w: "weeklyBudget DEFAULT_DAILY_BUDGET Calories = Fin 14735 \<and>
           weeklyBudget DEFAULT_DAILY_BUDGET Carbs = Fin 1890"
    using T p d by simp
  have z: "calculateCalories (Some ''abc'') None (Some ''1'') = Fin 9"
    using calories_and_weekly_budget [of "Some ''abc''" None "Some ''1''" 0 0 1] p by simp
  show ?thesis using p c w z by simp
qed

text \<open>
  Above the bound the products are rounded: 9 times 1000799917193445 is
  9007199254741005, which is no binary64 value, and the code gives 9007199254741004.
\<close>

lemma round64_9007199254741005: "round64 9007199254741005 = Fin 9007199254741004"
  using round64_eval(1) [of 9007199254741005 53 4503599627370502 9007199254741004]
  by (simp add: pow2_def round_ties_even_def Let_def)

lemma round64_9007199254741004: "round64 9007199254741004 = Fin 9007199254741004"
  using round64_idem [OF round64_9007199254741005] by (simp add: is_double_def)

text \<open>
  C3, as stated, fails for large quantities: a fat of 1000799917193445 grams, a text the
  input rule accepts and that parses to exactly this number, has derived calories
  9007199254741004, where 9 times the fat is 9007199254741005.
\<close>

theorem calories_counterexample:
  "acceptInput ''1000799917193445'' \<and>
   parsed_or_zero (Some ''0'') = Fin 0 \<and>
   parsed_or_zero (Some ''1000799917193445'') = Fin 1000799917193445 \<and>
   calculateCalories (Some ''0'') (Some ''0'') (Some ''1000799917193445'') =
     Fin 9007199254741004 \<and>
   calculateCalories (Some ''0'') (Some ''0'') (Some ''1000799917193445'') \<noteq>
     Fin (4 * 0 + 4 * 0 + 9 * 1000799917193445)"
  by (simp add: acceptInput_def parsed_or_zero_def calculateCalories_def parseFloat_eval
      round64_9007199254741005 round64_9007199254741004)

lemma js_ok_foldl: "js_ok a \<Longrightarrow> js_ok (foldl js_add a xs)"
  by (induction xs arbitrary: a) simp_all

lemma js_ok_sum [simp]: "js_ok (js_sum xs)"
  by (simp add: js_sum_def js_ok_foldl)

lemma js_ok_weeklyBudget [simp]: "js_ok (weeklyBudget db f)"
  by (cases f) (simp_all add: weeklyBudget_def js_ok_or0)

lemma remaining_eq: "remaining wb totals fld = js_sub (wb fld) (totals fld)"
  by (cases fld) (simp_all add: remaining_def)

lemma js_sub_negative:
  assumes "is_double b" and "is_double t" and "b < t"
  shows "js_gt (Fin 0) (js_sub (Fin b) (Fin t))"
proof -
  have "js_sub (Fin b) (Fin t) = round64 (b - t)" by (simp add: js_sub_def)
  moreover from round64_negative [OF assms]
  have "round64 (b - t) = NInf \<or> (\<exists>r. r < 0 \<and> round64 (b - t) = Fin r)" .
  ultimately show ?thesis by auto
qed

lemma js_sub_int:
  assumes "\<bar>b - t\<bar> < 2 ^ 53"
  shows "js_sub (Fin (of_int b)) (Fin (of_int t)) = Fin (of_int (b - t))"
proof -
  have "js_sub (Fin (of_int b)) (Fin (of_int t)) = round64 (of_int (b - t))"
    by (simp add: js_sub_def)
  then show ?thesis using round64_int [OF assms] by simp
qed

text \<open>
  C4, as amended. For each field the remaining amount is the weekly budget minus the
  total as binary64 subtraction gives it, the exact difference rounded to the nearest
  Number, with no clamping: it is negative whenever the total exceeds the budget, and it
  is the exact difference of two whole amounts when that lies within \<open>2^53\<close> of zero.
  \<open>calculateRemaining\<close> returns exactly this difference, and when no day contributes
  to any field it returns the weekly budget itself.
\<close>

theorem remaining_is_difference:
  "remaining wb totals fld = js_sub (wb fld) (totals fld) \<and>
   (wb fld = Fin b \<and> totals fld = Fin t \<and> is_double b \<and> is_double t \<and> b < t \<longrightarrow>
      js_gt (Fin 0) (remaining wb totals fld)) \<and>
   (wb fld = Fin (of_int i) \<and> totals fld = Fin (of_int j) \<and> \<bar>i - j\<bar> < 2 ^ 53 \<longrightarrow>
      remaining wb totals fld = Fin (of_int (i - j))) \<and>
   ((\<forall>d. we d \<noteq> None) \<longrightarrow>
      (\<exists>tot emptyFields.
         aggregate we = Inr (tot, emptyFields) \<and>
         calculateRemaining db we =
           Inr (remaining (weeklyBudget db) tot,
                getPlaceholder emptyFields (remaining (weeklyBudget db) tot)) \<and>
         (\<forall>f x y. weeklyBudget db f = Fin x \<and> tot f = Fin y \<and> x < y \<longrightarrow>
            js_gt (Fin 0) (remaining (weeklyBudget db) tot f)))) \<and>
   ((\<forall>d. we d \<noteq> None) \<and> (\<forall>f d. \<not> contributes we f d) \<longrightarrow>
      (\<exists>ph. calculateRemaining db we = Inr (weeklyBudget db, ph)))"
proof (intro conjI impI)
  show "remaining wb totals fld = js_sub (wb fld) (totals fld)"
    by (rule remaining_eq)
next
  assume "wb fld = Fin b \<and> totals fld = Fin t \<and> is_double b \<and> is_double t \<and> b < t"
  then show "js_gt (Fin 0) (remaining wb totals fld)"
    by (simp add: remaining_eq js_sub_negative)
next
  assume "wb fld = Fin (of_int i) \<and> totals fld = Fin (of_int j) \<and> \<bar>i - j\<bar> < 2 ^ 53"
  then show "remaining wb totals fld = Fin (of_int (i - j))"
    by (simp only: remaining_eq js_sub_int)
next
  assume present: "\<forall>d. we d \<noteq> None"
  define tot where "tot = (\<lambda>f. js_sum (map (day_value we f) (filter (contributes we f) DAYS)))"
  define ef where "ef = (\<lambda>f. filter (\<lambda>d. \<not> contributes we f d) DAYS)"
  have agg: "aggregate we = Inr (tot, ef)"
    unfolding tot_def ef_def by (rule aggregate_eq [OF present])
  have calc: "calculateRemaining db we =
           Inr (remaining (weeklyBudget db) tot,
                getPlaceholder ef (remaining (weeklyBudget db) tot))"
    by (simp add: calculateRemaining_def agg Let_def)
  have neg: "js_gt (Fin 0) (remaining (weeklyBudget db) tot f)"
    if "weeklyBudget db f = Fin x \<and> tot f = Fin y \<and> x < y" for f x y
  proof -
    have "js_ok (weeklyBudget db f)" "js_ok (tot f)" by (simp_all add: tot_def)
    with that have "is_double x" "is_double y" by simp_all
    with that show ?thesis by (simp add: remaining_eq js_sub_negative)
  qed
  show "\<exists>tot emptyFields.
         aggregate we = Inr (tot, emptyFields) \<and>
         calculateRemaining db we =
           Inr (remaining (weeklyBudget db) tot,
                getPlaceholder emptyFields (remaining (weeklyBudget db) tot)) \<and>
         (\<forall>f x y. weeklyBudget db f = Fin x \<and> tot f = Fin y \<and> x < y \<longrightarrow>
            js_gt (Fin 0) (remaining (weeklyBudget db) tot f))"
    using agg calc neg by blast
next
  assume h: "(\<forall>d. we d \<noteq> None) \<and> (\<forall>f d. \<not> contributes we f d)"
  then have "aggregate we = Inr (\<lambda>f. Fin 0, \<lambda>f. DAYS)"
    by (simp add: aggregate_eq js_sum_def)
  moreover have "remaining (weeklyBudget db) (\<lambda>f. Fin 0) = weeklyBudget db"
    by (rule ext) (simp add: remaining_eq js_sub_zero)
  ultimately show "\<exists>ph. calculateRemaining db we = Inr (weeklyBudget db, ph)"
    by (simp add: calculateRemaining_def Let_def)
qed

theorem remaining_is_difference_witness:
  "(\<forall>d. emptyWeeklyEntries d \<noteq> None) \<and>
   (\<forall>f d. \<not> contributes emptyWeeklyEntries f d) \<and>
   (\<exists>ph. calculateRemaining DEFAULT_DAILY_BUDGET emptyWeeklyEntries =
           Inr (weeklyBudget DEFAULT_DAILY_BUDGET, ph)) \<and>
   remaining (weeklyBudget DEFAULT_DAILY_BUDGET) (\<lambda>f. Fin 1905) Carbs = Fin (- 15) \<and>
   js_gt (Fin 0) (remaining (weeklyBudget DEFAULT_DAILY_BUDGET) (\<lambda>f. Fin 1905) Carbs)"
proof -
  have present: "\<forall>d. emptyWeeklyEntries d \<noteq> None"
    by (simp add: emptyWeeklyEntries_apply)
  have v: "parseFloat_prop (emptyEntry f) = NaN" for f
    by (cases f) (simp_all add: emptyEntry_def parseFloat_empty)
  have none: "\<forall>f d. \<not> contributes emptyWeeklyEntries f d"
    by (simp add: contributes_def day_value_def emptyWeeklyEntries_apply v)
  note T = remaining_is_difference
    [of "weeklyBudget DEFAULT_DAILY_BUDGET" "\<lambda>f. Fin 1905" Carbs 1890 1905 1890 1905
        emptyWeeklyEntries DEFAULT_DAILY_BUDGET]
  have 1: "\<exists>ph. calculateRemaining DEFAULT_DAILY_BUDGET emptyWeeklyEntries =
           Inr (weeklyBudget DEFAULT_DAILY_BUDGET, ph)"
    using T present none by (elim conjE) simp
  have dd: "is_double 1890" "is_double 1905" by (simp_all add: is_double_def)
  have 2: "remaining (weeklyBudget DEFAULT_DAILY_BUDGET) (\<lambda>f. Fin 1905) Carbs = Fin (- 15)"
    using T by (elim conjE) (simp add: default_weeklyBudget)
  have 3: "js_gt (Fin 0) (remaining (weeklyBudget DEFAULT_DAILY_BUDGET) (\<lambda>f. Fin 1905) Carbs)"
    using T dd by (elim conjE) (simp add: default_weeklyBudget)
  show ?thesis using present none 1 2 3 by (intro conjI)
qed

text \<open>
  Beyond that range the difference is rounded: a daily budget of 2573485501354569 g of
  carbs makes a weekly budget of \<open>2^54\<close>, and a total of 1 leaves \<open>2^54\<close>.
\<close>

lemma round64_18014398509481983: "round64 18014398509481983 = Fin 18014398509481984"
  using round64_eval(1) [of 18014398509481983 53 9007199254740992 18014398509481984]
  by (simp add: pow2_def round_ties_even_def Let_def)

text \<open>
  C4, as stated, fails for large amounts: with a daily carbs budget of 2573485501354569
  the weekly carbs budget is \<open>2^54\<close> = 18014398509481984, and with 1 gram of carbs
  entered on Monday, the total being 1, the remaining carbs are still \<open>2^54\<close>, not
  \<open>2^54 - 1\<close>.
\<close>

theorem remaining_counterexample:
  "acceptInput ''2573485501354569'' \<and> acceptInput ''1'' \<and>
   weeklyBudget [Carbs \<mapsto> ''2573485501354569''] Carbs = Fin 18014398509481984 \<and>
   aggregate (emptyWeeklyEntries(Monday \<mapsto> emptyEntry(Carbs \<mapsto> ''1''))) =
     Inr (\<lambda>f. if f = Carbs then Fin 1 else Fin 0,
          \<lambda>f. if f = Carbs then [Tuesday, Wednesday, Thursday, Friday, Saturday, Sunday]
               else DAYS) \<and>
   (\<exists>rem ph.
      calculateRemaining [Carbs \<mapsto> ''2573485501354569'']
        (emptyWeeklyEntries(Monday \<mapsto> emptyEntry(Carbs \<mapsto> ''1''))) = Inr (rem, ph) \<and>
      rem Carbs = Fin 18014398509481984 \<and>
      rem Carbs \<noteq> Fin (18014398509481984 - 1))"
proof -
  define db :: budget where "db = [Carbs \<mapsto> ''2573485501354569'']"
  define we where "we = emptyWeeklyEntries(Monday \<mapsto> emptyEntry(Carbs \<mapsto> ''1''))"
  define tot where "tot = (\<lambda>f. if f = Carbs then Fin 1 else Fin 0)"
  define ef where
    "ef = (\<lambda>f. if f = Carbs then [Tuesday, Wednesday, Thursday, Friday, Saturday, Sunday]
               else DAYS)"
  have a: "acceptInput ''2573485501354569''" "acceptInput ''1''"
    by (simp_all add: acceptInput_def)
  have p: "parseFloat ''1'' = Fin 1"
    by (simp add: parseFloat_eval)
  have w: "weeklyBudget db Carbs = Fin 18014398509481984"
    by (simp add: db_def weeklyBudget_def parseFloat_eval round64_18014398509481983)
  have g: "aggregate we = Inr (tot, ef)"
    unfolding we_def tot_def ef_def by (rule monday_carbs_aggregate [OF p]) simp
  have r: "remaining (weeklyBudget db) tot Carbs = Fin 18014398509481984"
    by (simp add: remaining_def w tot_def js_sub_def round64_18014398509481983)
  have c: "calculateRemaining db we =
             Inr (remaining (weeklyBudget db) tot,
                  getPlaceholder ef (remaining (weeklyBudget db) tot))"
    unfolding calculateRemaining_def g by (simp add: Let_def)
  have "\<exists>rem ph. calculateRemaining db we = Inr (rem, ph) \<and>
          rem Carbs = Fin 18014398509481984 \<and> rem Carbs \<noteq> Fin (18014398509481984 - 1)"
    unfolding c using r by simp
  with a w g show ?thesis
    unfolding db_def we_def tot_def ef_def by (intro conjI)
qed

section \<open>Empty fields\<close>

text \<open>
  C6. For a day the weekly entries hold, \<open>isEmptyField\<close> is true exactly when the
  day's value for the field is unparsable or equal to 0. A negative value makes it false,
  while the aggregation loop still lists that day among the field's empty days.
\<close>

theorem isEmptyField_rule:
  "(we d = Some ent \<longrightarrow>
      isEmptyField we d fld =
        Inr (isNaN (parseFloat_prop (ent fld)) \<or> parseFloat_prop (ent fld) = Fin 0)) \<and>
   ((\<forall>d'. we d' \<noteq> None) \<and> js_gt (Fin 0) (day_value we fld d) \<longrightarrow>
      isEmptyField we d fld = Inr False \<and>
      (\<exists>totals emptyFields.
         aggregate we = Inr (totals, emptyFields) \<and> d \<in> set (emptyFields fld)))"
proof (intro conjI impI)
  assume "we d = Some ent"
  then show "isEmptyField we d fld =
        Inr (isNaN (parseFloat_prop (ent fld)) \<or> parseFloat_prop (ent fld) = Fin 0)"
    by (simp add: isEmptyField_def Let_def)
next
  assume h: "(\<forall>d'. we d' \<noteq> None) \<and> js_gt (Fin 0) (day_value we fld d)"
  then obtain ent where ent: "we d = Some ent" by auto
  from h have neg: "js_gt (Fin 0) (parseFloat_prop (ent fld))"
    by (simp add: day_value_def ent)
  then show "isEmptyField we d fld = Inr False"
    by (cases "parseFloat_prop (ent fld)") (simp_all add: isEmptyField_def Let_def ent)
  have "\<not> contributes we fld d"
    using neg by (cases "parseFloat_prop (ent fld)") (simp_all add: contributes_def day_value_def ent)
  then have "d \<in> set (filter (\<lambda>d. \<not> contributes we fld d) DAYS)"
    using UNIV_day by auto
  then show "\<exists>totals emptyFields.
         aggregate we = Inr (totals, emptyFields) \<and> d \<in> set (emptyFields fld)"
    using h by (simp add: aggregate_eq)
qed

theorem isEmptyField_rule_witness:
  "isEmptyField (emptyWeeklyEntries(Monday \<mapsto> emptyEntry(Carbs \<mapsto> ''-5''))) Monday Carbs =
     Inr False \<and>
   (\<exists>totals emptyFields.
      aggregate (emptyWeeklyEntries(Monday \<mapsto> emptyEntry(Carbs \<mapsto> ''-5''))) =
        Inr (totals, emptyFields) \<and>
      Monday \<in> set (emptyFields Carbs)) \<and>
   isEmptyField (emptyWeeklyEntries(Monday \<mapsto> emptyEntry(Carbs \<mapsto> ''0''))) Monday Carbs =
     Inr True \<and>
   isEmptyField (emptyWeeklyEntries(Monday \<mapsto> emptyEntry(Carbs \<mapsto> ''abc''))) Monday Carbs =
     Inr True \<and>
   isEmptyField (emptyWeeklyEntries(Monday \<mapsto> emptyEntry(Carbs \<mapsto> ''12''))) Monday Carbs =
     Inr False"
proof -
  define we where "we v = emptyWeeklyEntries(Monday \<mapsto> emptyEntry(Carbs \<mapsto> v))" for v
  have present: "\<forall>d. we v d \<noteq> None" for v
    by (simp add: we_def emptyWeeklyEntries_apply)
  have look: "we v Monday = Some (emptyEntry(Carbs \<mapsto> v))" for v
    by (simp add: we_def)
  have p: "parseFloat_prop (Some ''-5'') = Fin (- 5)" "parseFloat_prop (Some ''0'') = Fin 0"
    "parseFloat_prop (Some ''abc'') = NaN" "parseFloat_prop (Some ''12'') = Fin 12"
    by (simp_all add: parseFloat_eval)
  have neg: "js_gt (Fin 0) (day_value (we ''-5'') Carbs Monday)"
    by (simp add: day_value_def look p)
  have 1: "isEmptyField (we ''-5'') Monday Carbs = Inr False \<and>
      (\<exists>totals emptyFields.
         aggregate (we ''-5'') = Inr (totals, emptyFields) \<and> Monday \<in> set (emptyFields Carbs))"
    using isEmptyField_rule [of "we ''-5''" Monday _ Carbs] present neg by simp
  have 2: "isEmptyField (we ''0'') Monday Carbs = Inr True"
    using isEmptyField_rule [of "we ''0''" Monday "emptyEntry(Carbs \<mapsto> ''0'')" Carbs] look p
    by simp
  have 3: "isEmptyField (we ''abc'') Monday Carbs = Inr True"
    using isEmptyField_rule [of "we ''abc''" Monday "emptyEntry(Carbs \<mapsto> ''abc'')" Carbs] look p
    by simp
  have 4: "isEmptyField (we ''12'') Monday Carbs = Inr False"
    using isEmptyField_rule [of "we ''12''" Monday "emptyEntry(Carbs \<mapsto> ''12'')" Carbs] look p
    by simp
  show ?thesis using 1 2 3 4 unfolding we_def by (intro conjI) simp_all
qed

section \<open>The reminder check\<close>

lemma isDayFilled_iff: "isDayFilled ent = (\<exists>f. js_gt (parseFloat_prop (ent f)) (Fin 0))"
proof
  assume "isDayFilled ent"
  then show "\<exists>f. js_gt (parseFloat_prop (ent f)) (Fin 0)"
    unfolding isDayFilled_def by blast
next
  assume "\<exists>f. js_gt (parseFloat_prop (ent f)) (Fin 0)"
  then obtain f where "js_gt (parseFloat_prop (ent f)) (Fin 0)" ..
  then show "isDayFilled ent"
    unfolding isDayFilled_def by (cases f) simp_all
qed

lemma day_name_inj: "day_name a = day_name b \<Longrightarrow> a = b"
  by (cases a; cases b) simp_all

lemma getCurrentDay_values:
  "map getCurrentDay [0..<7] = [Sunday, Monday, Tuesday, Wednesday, Thursday, Friday, Saturday]"
  by (simp add: getCurrentDay_def upt_rec)

text \<open>
  C7. The check raises a notification exactly when the weekly entries hold the current
  day and none of its four fields parses to a number greater than 0 (which is what
  \<open>isDayFilled\<close> decides). The notification's tag is the day's name after a fixed
  prefix, so two notifications with the same tag are for the same weekday, and the seven
  weekdays are distinct. A day whose calories parse to 0 and whose three macros are
  greater than 0 is filled and raises nothing, although \<open>isEmptyField\<close> is true of
  its calories.
\<close>

lemma notification_tag:
  "checkAndNotify we n = Some nt \<Longrightarrow>
     tag nt = ''macro-reminder-'' @ day_name (getCurrentDay n)"
  by (auto simp: checkAndNotify_def Let_def split: option.splits if_splits)

theorem reminder_rule:
  "(checkAndNotify we n \<noteq> None) =
     (\<exists>ent. we (getCurrentDay n) = Some ent \<and>
            \<not> (\<exists>f. js_gt (parseFloat_prop (ent f)) (Fin 0))) \<and>
   (\<forall>nt. checkAndNotify we n = Some nt \<longrightarrow>
      tag nt = ''macro-reminder-'' @ day_name (getCurrentDay n)) \<and>
   (\<forall>we' m a b. checkAndNotify we n = Some a \<and> checkAndNotify we' m = Some b \<and> tag a = tag b
      \<longrightarrow> getCurrentDay n = getCurrentDay m) \<and>
   distinct (map getCurrentDay [0..<7]) \<and>
   isDayFilled ent = (\<exists>f. js_gt (parseFloat_prop (ent f)) (Fin 0)) \<and>
   (we d = Some ent \<and> parseFloat_prop (ent Calories) = Fin 0 \<and>
    js_gt (parseFloat_prop (ent Carbs)) (Fin 0) \<and>
    js_gt (parseFloat_prop (ent Protein)) (Fin 0) \<and>
    js_gt (parseFloat_prop (ent Fat)) (Fin 0) \<longrightarrow>
      isDayFilled ent \<and> isEmptyField we d Calories = Inr True \<and>
      (getCurrentDay n = d \<longrightarrow> checkAndNotify we n = None))"
proof (intro conjI allI impI)
  show "(checkAndNotify we n \<noteq> None) =
     (\<exists>ent. we (getCurrentDay n) = Some ent \<and>
            \<not> (\<exists>f. js_gt (parseFloat_prop (ent f)) (Fin 0)))"
    by (simp add: checkAndNotify_def Let_def isDayFilled_iff split: option.splits)
next
  fix nt
  assume "checkAndNotify we n = Some nt"
  then show "tag nt = ''macro-reminder-'' @ day_name (getCurrentDay n)"
    by (rule notification_tag)
next
  fix we' m a b
  assume h: "checkAndNotify we n = Some a \<and> checkAndNotify we' m = Some b \<and> tag a = tag b"
  have "tag a = ''macro-reminder-'' @ day_name (getCurrentDay n)"
    using h by (intro notification_tag) (elim conjE)
  moreover have "tag b = ''macro-reminder-'' @ day_name (getCurrentDay m)"
    using h by (intro notification_tag) (elim conjE)
  moreover have "tag a = tag b" using h by (elim conjE)
  ultimately have "''macro-reminder-'' @ day_name (getCurrentDay n) =
               ''macro-reminder-'' @ day_name (getCurrentDay m)"
    by (simp only:)
  then have "day_name (getCurrentDay n) = day_name (getCurrentDay m)"
    by (simp only: same_append_eq)
  then show "getCurrentDay n = getCurrentDay m" by (rule day_name_inj)
next
  show "distinct (map getCurrentDay [0..<7])"
    unfolding getCurrentDay_values by simp
next
  show "isDayFilled ent = (\<exists>f. js_gt (parseFloat_prop (ent f)) (Fin 0))"
    by (rule isDayFilled_iff)
next
  assume h: "we d = Some ent \<and> parseFloat_prop (ent Calories) = Fin 0 \<and>
    js_gt (parseFloat_prop (ent Carbs)) (Fin 0) \<and>
    js_gt (parseFloat_prop (ent Protein)) (Fin 0) \<and>
    js_gt (parseFloat_prop (ent Fat)) (Fin 0)"
  then show "isDayFilled ent"
    by (simp add: isDayFilled_def)
  from h show "isEmptyField we d Calories = Inr True"
    by (simp add: isEmptyField_def Let_def)
  assume "getCurrentDay n = d"
  with h show "checkAndNotify we n = None"
    by (simp add: isDayFilled_def checkAndNotify_def Let_def)
qed

theorem reminder_rule_witness:
  "checkAndNotify emptyWeeklyEntries 1 \<noteq> None \<and>
   map_option tag (checkAndNotify emptyWeeklyEntries 1) = Some ''macro-reminder-Monday'' \<and>
   isDayFilled [Calories \<mapsto> ''0'', Carbs \<mapsto> ''250'', Protein \<mapsto> ''100'', Fat \<mapsto> ''60''] \<and>
   isEmptyField
     (emptyWeeklyEntries
        (Monday \<mapsto> [Calories \<mapsto> ''0'', Carbs \<mapsto> ''250'', Protein \<mapsto> ''100'', Fat \<mapsto> ''60'']))
     Monday Calories = Inr True \<and>
   checkAndNotify
     (emptyWeeklyEntries
        (Monday \<mapsto> [Calories \<mapsto> ''0'', Carbs \<mapsto> ''250'', Protein \<mapsto> ''100'', Fat \<mapsto> ''60'']))
     1 = None"
proof -
  define ent :: entry where
    "ent = [Calories \<mapsto> ''0'', Carbs \<mapsto> ''250'', Protein \<mapsto> ''100'', Fat \<mapsto> ''60'']"
  define we where "we = emptyWeeklyEntries(Monday \<mapsto> ent)"
  define n :: nat where "n = 1"
  have day: "getCurrentDay n = Monday" by (simp add: n_def getCurrentDay_def)
  have e: "\<not> js_gt (parseFloat_prop (emptyEntry f)) (Fin 0)" for f
    by (cases f) (simp_all add: emptyEntry_def parseFloat_empty)
  have v: "parseFloat_prop (ent Calories) = Fin 0" "js_gt (parseFloat_prop (ent Carbs)) (Fin 0)"
    "js_gt (parseFloat_prop (ent Protein)) (Fin 0)" "js_gt (parseFloat_prop (ent Fat)) (Fin 0)"
    by (simp_all add: ent_def parseFloat_eval)
  have look: "we Monday = Some ent" by (simp add: we_def)
  note R = reminder_rule [of emptyWeeklyEntries n ent Monday]
  have "\<exists>x. emptyWeeklyEntries (getCurrentDay n) = Some x \<and>
            \<not> (\<exists>f. js_gt (parseFloat_prop (x f)) (Fin 0))"
    using e by (simp add: emptyWeeklyEntries_apply)
  with R have 1: "checkAndNotify emptyWeeklyEntries n \<noteq> None" by (simp only:)
  then obtain nt where nt: "checkAndNotify emptyWeeklyEntries n = Some nt" by auto
  from R have "\<forall>nt. checkAndNotify emptyWeeklyEntries n = Some nt \<longrightarrow>
      tag nt = ''macro-reminder-'' @ day_name (getCurrentDay n)"
    by (elim conjE)
  with nt have "tag nt = ''macro-reminder-'' @ day_name (getCurrentDay n)" by (simp only:)
  then have 2: "map_option tag (checkAndNotify emptyWeeklyEntries n) =
      Some ''macro-reminder-Monday''"
    by (simp add: nt day)
  note S = reminder_rule [of we n ent Monday]
  from S have "we Monday = Some ent \<and> parseFloat_prop (ent Calories) = Fin 0 \<and>
    js_gt (parseFloat_prop (ent Carbs)) (Fin 0) \<and>
    js_gt (parseFloat_prop (ent Protein)) (Fin 0) \<and>
    js_gt (parseFloat_prop (ent Fat)) (Fin 0) \<longrightarrow>
      isDayFilled ent \<and> isEmptyField we Monday Calories = Inr True \<and>
      (getCurrentDay n = Monday \<longrightarrow> checkAndNotify we n = None)"
    by (elim conjE)
  with look v day have 3: "isDayFilled ent \<and> isEmptyField we Monday Calories = Inr True \<and>
      checkAndNotify we n = None"
    by (simp only: simp_thms)
  show ?thesis using 1 2 3 unfolding we_def ent_def n_def by (intro conjI) (elim conjE, assumption)+
qed

section \<open>Clear All\<close>

text \<open>
  C9. Clear All is idempotent: a second Clear All changes nothing. After it the daily
  budget is the default and each of the seven days holds four empty fields, as in the
  state of a first run.
\<close>

theorem clear_all_idempotent:
  "handleClearAll (handleClearAll s) = handleClearAll s \<and>
   dailyBudget (handleClearAll s) = DEFAULT_DAILY_BUDGET \<and>
   weeklyEntries (handleClearAll s) = (\<lambda>d. Some emptyEntry) \<and>
   dailyBudget (handleClearAll s) = dailyBudget default_state \<and>
   weeklyEntries (handleClearAll s) = weeklyEntries default_state"
proof -
  have "emptyWeeklyEntries = (\<lambda>d. Some emptyEntry)"
    by (rule ext) (rule emptyWeeklyEntries_apply)
  then show ?thesis
    by (simp add: handleClearAll_def default_state_def initial_state_def
        getInitialDailyBudget_def getInitialWeeklyEntries_def)
qed

section \<open>Loading the daily budget\<close>

text \<open>
  C8. Whatever the store holds, the daily budget loaded from it has no calories field:
  a saved record loses its calories key and keeps its carbs, protein and fat, and the
  default has none. The budget computation never reads a calories field of the daily
  budget: the weekly calories are 7 times the calories derived from the three macros,
  4 times the carbs plus 4 times the protein plus 9 times the fat, for the loaded budget
  as for any other.
\<close>

theorem load_discards_calories:
  "getInitialDailyBudget st Calories = None \<and>
   (macroDailyBudget st = Some saved \<longrightarrow>
      getInitialDailyBudget st Carbs = saved Carbs \<and>
      getInitialDailyBudget st Protein = saved Protein \<and>
      getInitialDailyBudget st Fat = saved Fat) \<and>
   dom (getInitialDailyBudget st) \<subseteq> {Carbs, Protein, Fat} \<and>
   weeklyBudget (db(Calories := x)) = weeklyBudget db \<and>
   calculateRemaining (db(Calories := x)) we = calculateRemaining db we \<and>
   weeklyBudget db Calories =
     js_mul (Fin 7)
       (js_add (js_add (js_mul (Fin 4) (parsed_or_zero (db Carbs)))
                       (js_mul (Fin 4) (parsed_or_zero (db Protein))))
               (js_mul (Fin 9) (parsed_or_zero (db Fat)))) \<and>
   (macroDailyBudget st = Some saved \<longrightarrow>
      weeklyBudget (getInitialDailyBudget st) Calories =
        js_mul (Fin 7)
          (js_add (js_add (js_mul (Fin 4) (parsed_or_zero (saved Carbs)))
                          (js_mul (Fin 4) (parsed_or_zero (saved Protein))))
                  (js_mul (Fin 9) (parsed_or_zero (saved Fat)))))"
proof -
  have c: "getInitialDailyBudget st Calories = None"
    by (simp add: getInitialDailyBudget_def DEFAULT_DAILY_BUDGET_def split: option.splits)
  have k: "macroDailyBudget st = Some saved \<longrightarrow>
      getInitialDailyBudget st Carbs = saved Carbs \<and>
      getInitialDailyBudget st Protein = saved Protein \<and>
      getInitialDailyBudget st Fat = saved Fat"
    by (simp add: getInitialDailyBudget_def)
  have d: "dom (getInitialDailyBudget st) \<subseteq> {Carbs, Protein, Fat}"
  proof
    fix f assume "f \<in> dom (getInitialDailyBudget st)"
    then have "f \<noteq> Calories" using c by auto
    then show "f \<in> {Carbs, Protein, Fat}" by (cases f) simp_all
  qed
  have w: "weeklyBudget (db(Calories := x)) = weeklyBudget db"
    by (rule ext) (simp add: weeklyBudget_def split: field.splits)
  have r: "calculateRemaining (db(Calories := x)) we = calculateRemaining db we"
    unfolding calculateRemaining_def w ..
  have m: "weeklyBudget b Calories =
     js_mul (Fin 7)
       (js_add (js_add (js_mul (Fin 4) (parsed_or_zero (b Carbs)))
                       (js_mul (Fin 4) (parsed_or_zero (b Protein))))
               (js_mul (Fin 9) (parsed_or_zero (b Fat))))" for b
    unfolding weeklyBudget_eq calculateCalories_eq ..
  have l: "macroDailyBudget st = Some saved \<longrightarrow>
      weeklyBudget (getInitialDailyBudget st) Calories =
        js_mul (Fin 7)
          (js_add (js_add (js_mul (Fin 4) (parsed_or_zero (saved Carbs)))
                          (js_mul (Fin 4) (parsed_or_zero (saved Protein))))
                  (js_mul (Fin 9) (parsed_or_zero (saved Fat))))"
    unfolding m using k by simp
  show ?thesis using c k d w r m [of db] l by (intro conjI)
qed

theorem load_discards_calories_witness:
  "getInitialDailyBudget
     \<lparr>macroDailyBudget = Some [Calories \<mapsto> ''2000'', Carbs \<mapsto> ''200'', Protein \<mapsto> ''100'',
                               Fat \<mapsto> ''50''],
      macroWeeklyEntries = None\<rparr> Calories = None \<and>
   getInitialDailyBudget
     \<lparr>macroDailyBudget = Some [Calories \<mapsto> ''2000'', Carbs \<mapsto> ''200'', Protein \<mapsto> ''100'',
                               Fat \<mapsto> ''50''],
      macroWeeklyEntries = None\<rparr> Carbs = Some ''200'' \<and>
   weeklyBudget
     (getInitialDailyBudget
        \<lparr>macroDailyBudget = Some [Calories \<mapsto> ''2000'', Carbs \<mapsto> ''200'', Protein \<mapsto> ''100'',
                                  Fat \<mapsto> ''50''],
         macroWeeklyEntries = None\<rparr>) Calories = Fin 11550"
proof -
  define saved :: budget where
    "saved = [Calories \<mapsto> ''2000'', Carbs \<mapsto> ''200'', Protein \<mapsto> ''100'', Fat \<mapsto> ''50'']"
  define st where "st = \<lparr>macroDailyBudget = Some saved, macroWeeklyEntries = None\<rparr>"
  have m: "macroDailyBudget st = Some saved" by (simp add: st_def)
  have p: "parsed_or_zero (saved Carbs) = Fin 200" "parsed_or_zero (saved Protein) = Fin 100"
    "parsed_or_zero (saved Fat) = Fin 50"
    by (simp_all add: saved_def parsed_or_zero_def parseFloat_eval)
  note T = load_discards_calories [of st saved saved None Map.empty]
  have 1: "getInitialDailyBudget st Calories = None \<and>
           getInitialDailyBudget st Carbs = saved Carbs"
    using T m by simp
  from T have "macroDailyBudget st = Some saved \<longrightarrow>
      weeklyBudget (getInitialDailyBudget st) Calories =
        js_mul (Fin 7)
          (js_add (js_add (js_mul (Fin 4) (parsed_or_zero (saved Carbs)))
                          (js_mul (Fin 4) (parsed_or_zero (saved Protein))))
                  (js_mul (Fin 9) (parsed_or_zero (saved Fat))))"
    by (elim conjE)
  from this m have "weeklyBudget (getInitialDailyBudget st) Calories =
        js_mul (Fin 7)
          (js_add (js_add (js_mul (Fin 4) (parsed_or_zero (saved Carbs)))
                          (js_mul (Fin 4) (parsed_or_zero (saved Protein))))
                  (js_mul (Fin 9) (parsed_or_zero (saved Fat))))"
    by (rule mp)
  then have 2: "weeklyBudget (getInitialDailyBudget st) Calories = Fin 11550"
    unfolding p by simp
  show ?thesis using 1 2 unfolding st_def saved_def by simp
qed

text \<open>
  The earlier copy of the application keeps the calories key of a saved record: it
  stores the calories as a fourth budget field of its own.
\<close>

lemma earlier_copy_keeps_calories:
  "macroDailyBudget st = Some saved \<Longrightarrow> getInitialDailyBudget_stored st = saved"
  by (simp add: getInitialDailyBudget_stored_def)

section \<open>The stored texts of the reachable states\<close>

lemma fields_ok_iff: "fields_ok m \<longleftrightarrow> (\<forall>f v. m f = Some v \<longrightarrow> acceptInput v)"
proof -
  have "fields_ok m \<longleftrightarrow> (\<forall>f. case m f of None \<Rightarrow> True | Some v \<Rightarrow> acceptInput v)"
    unfolding fields_ok_def list_all_iff using UNIV_field by auto
  then show ?thesis by (auto split: option.splits)
qed

lemma state_ok_iff:
  "state_ok s \<longleftrightarrow>
     fields_ok (dailyBudget s) \<and> (\<forall>d ent. weeklyEntries s d = Some ent \<longrightarrow> fields_ok ent)"
proof -
  have "list_all (\<lambda>d. case weeklyEntries s d of None \<Rightarrow> True | Some ent \<Rightarrow> fields_ok ent) DAYS
        \<longleftrightarrow> (\<forall>d. case weeklyEntries s d of None \<Rightarrow> True | Some ent \<Rightarrow> fields_ok ent)"
    unfolding list_all_iff using UNIV_day by auto
  then show ?thesis unfolding state_ok_def by (auto split: option.splits)
qed

lemma fields_ok_update: "fields_ok m \<Longrightarrow> acceptInput v \<Longrightarrow> fields_ok (m(f \<mapsto> v))"
  by (simp add: fields_ok_iff)

lemma fields_ok_empty: "fields_ok Map.empty"
  by (simp add: fields_ok_iff)

lemma accept_default: "acceptInput ''270''" "acceptInput ''110''" "acceptInput ''65''" "acceptInput []"
  by (simp_all add: acceptInput_def)

lemma fields_ok_default: "fields_ok DEFAULT_DAILY_BUDGET" "fields_ok emptyEntry"
  unfolding DEFAULT_DAILY_BUDGET_def emptyEntry_def
  by (intro fields_ok_update fields_ok_empty accept_default)+

lemma state_ok_clear: "state_ok (handleClearAll s)"
  by (simp add: state_ok_iff handleClearAll_def fields_ok_default emptyWeeklyEntries_apply)

lemma state_ok_default: "state_ok default_state"
  by (simp add: state_ok_iff default_state_def initial_state_def getInitialDailyBudget_def
      getInitialWeeklyEntries_def fields_ok_default emptyWeeklyEntries_apply)

lemma state_ok_daily: "state_ok s \<Longrightarrow> state_ok (handleDailyBudgetChange f v s)"
  unfolding handleDailyBudgetChange_def gate_iff
  by (simp add: state_ok_iff fields_ok_update)

lemma state_ok_weekly: "state_ok s \<Longrightarrow> state_ok (handleWeeklyEntryChange d f v s)"
  unfolding handleWeeklyEntryChange_def gate_iff
  by (auto simp: state_ok_iff fields_ok_update fields_ok_empty split: option.splits)

lemma state_ok_step: "state_ok s \<Longrightarrow> state_ok (apply_action s a)"
  by (cases a) (simp_all add: state_ok_daily state_ok_weekly state_ok_clear)

lemma state_ok_foldl: "state_ok s \<Longrightarrow> state_ok (foldl apply_action s acts)"
  by (induction acts arbitrary: s) (simp_all add: state_ok_step)

lemma round64_PInf_bound:
  assumes "0 < a" and "round64 a = PInf"
  shows "pow2 1023 \<le> a"
proof -
  from assms have over: "pow2 1024 \<le> nearest a"
    by (simp add: round64_pos split: if_splits)
  from nearest_shape [OF assms(1)] obtain n where
    r: "nearest a = of_int n * pow2 (expo a - 52)" and n53: "n \<le> 2 ^ 53" by blast
  have "(of_int n :: rat) \<le> of_int (2 ^ 53)" using n53 by (simp only: of_int_le_iff)
  then have "of_int n \<le> pow2 53" by (simp add: pow2_nonneg_int)
  then have "nearest a \<le> pow2 53 * pow2 (expo a - 52)"
    unfolding r by (intro mult_right_mono) simp_all
  also have "\<dots> = pow2 (expo a + 1)"
    using pow2_add [of 53 "expo a - 52"] by (simp add: add.commute)
  finally have "pow2 1024 \<le> pow2 (expo a + 1)" using over by simp
  then have "1024 \<le> expo a + 1" by (rule pow2_le_cancel)
  then have "1023 \<le> ilog2 a" by (simp add: expo_def)
  then have "pow2 1023 \<le> pow2 (ilog2 a)" by (rule pow2_mono)
  also have "\<dots> \<le> a" by (rule ilog2_bounds(1) [OF assms(1)])
  finally show ?thesis .
qed

lemma accept_parse:
  assumes "acceptInput v" and "v \<noteq> []"
  shows "parseFloat v = round64 (of_nat (digits_val v))"
proof -
  from assms have "list_all is_digit v"
    by (simp add: acceptInput_def list_all_iff is_digit_iff)
  with assms(2) show ?thesis by (rule parseFloat_digits)
qed

lemma accept_parse_cases:
  assumes "acceptInput v" and "v \<noteq> []"
  shows "(parseFloat v = PInf \<or> (\<exists>k. parseFloat v = Fin (of_nat k))) \<and>
         (parseFloat v = PInf \<longrightarrow> 2 ^ 1023 \<le> digits_val v) \<and>
         (digits_val v < 2 ^ 53 \<longrightarrow> parseFloat v = Fin (of_nat (digits_val v)))"
proof (intro conjI impI)
  note p = accept_parse [OF assms]
  show "parseFloat v = PInf \<or> (\<exists>k. parseFloat v = Fin (of_nat k))"
    unfolding p by (rule round64_nat)
  {
    assume inf: "parseFloat v = PInf"
    have pos: "0 < (of_nat (digits_val v) :: rat)"
    proof (cases "digits_val v = 0")
      case True
      with inf show ?thesis by (simp add: p)
    next
      case False
      then show ?thesis by simp
    qed
    have "pow2 1023 \<le> of_nat (digits_val v)"
      using inf unfolding p by (rule round64_PInf_bound [OF pos])
    then have "(of_nat (2 ^ 1023) :: rat) \<le> of_nat (digits_val v)"
      by (simp add: pow2_nonneg_int)
    then show "2 ^ 1023 \<le> digits_val v" by (simp only: of_nat_le_iff)
  }
  {
    assume "digits_val v < 2 ^ 53"
    then show "parseFloat v = Fin (of_nat (digits_val v))"
      unfolding p by (rule round64_of_nat)
  }
qed

text \<open>
  C10, as amended. In every state reached from the default state by daily-budget edits,
  weekly-entry edits and Clear All, each stored field of the daily budget and of every
  day is the empty string or a string of one or more ASCII digits. Each stored field
  that is not empty parses to a natural number or to \<open>+\<infinity>\<close>, never to a negative or
  fractional value: to the number its digits spell when that is below \<open>2^53\<close>, and to
  \<open>+\<infinity>\<close> only when they spell \<open>2^1023\<close> or more.
\<close>

theorem stored_text_invariant:
  "state_ok (run acts) \<and>
   (\<forall>f v. dailyBudget (run acts) f = Some v \<longrightarrow>
      acceptInput v \<and>
      (v \<noteq> [] \<longrightarrow>
         (parseFloat v = PInf \<or> (\<exists>k. parseFloat v = Fin (of_nat k))) \<and>
         (parseFloat v = PInf \<longrightarrow> 2 ^ 1023 \<le> digits_val v) \<and>
         (digits_val v < 2 ^ 53 \<longrightarrow> parseFloat v = Fin (of_nat (digits_val v))))) \<and>
   (\<forall>d ent f v. weeklyEntries (run acts) d = Some ent \<and> ent f = Some v \<longrightarrow>
      acceptInput v \<and>
      (v \<noteq> [] \<longrightarrow>
         (parseFloat v = PInf \<or> (\<exists>k. parseFloat v = Fin (of_nat k))) \<and>
         (parseFloat v = PInf \<longrightarrow> 2 ^ 1023 \<le> digits_val v) \<and>
         (digits_val v < 2 ^ 53 \<longrightarrow> parseFloat v = Fin (of_nat (digits_val v)))))"
proof -
  have ok: "state_ok (run acts)"
    unfolding run_def by (rule state_ok_foldl [OF state_ok_default])
  then have b: "\<And>f v. dailyBudget (run acts) f = Some v \<Longrightarrow> acceptInput v"
    and w: "\<And>d ent f v. weeklyEntries (run acts) d = Some ent \<Longrightarrow> ent f = Some v \<Longrightarrow> acceptInput v"
    unfolding state_ok_iff fields_ok_iff by blast+
  have one: "acceptInput v \<Longrightarrow>
      acceptInput v \<and>
      (v \<noteq> [] \<longrightarrow>
         (parseFloat v = PInf \<or> (\<exists>k. parseFloat v = Fin (of_nat k))) \<and>
         (parseFloat v = PInf \<longrightarrow> 2 ^ 1023 \<le> digits_val v) \<and>
         (digits_val v < 2 ^ 53 \<longrightarrow> parseFloat v = Fin (of_nat (digits_val v))))" for v
    using accept_parse_cases [of v] by blast
  show ?thesis
  proof (intro conjI allI)
    show "state_ok (run acts)" by (rule ok)
  next
    fix f v
    show "dailyBudget (run acts) f = Some v \<longrightarrow>
      acceptInput v \<and>
      (v \<noteq> [] \<longrightarrow>
         (parseFloat v = PInf \<or> (\<exists>k. parseFloat v = Fin (of_nat k))) \<and>
         (parseFloat v = PInf \<longrightarrow> 2 ^ 1023 \<le> digits_val v) \<and>
         (digits_val v < 2 ^ 53 \<longrightarrow> parseFloat v = Fin (of_nat (digits_val v))))"
      using b [of f v] one [of v] by (intro impI) (erule meta_mp, assumption)
  next
    fix d ent f v
    show "weeklyEntries (run acts) d = Some ent \<and> ent f = Some v \<longrightarrow>
      acceptInput v \<and>
      (v \<noteq> [] \<longrightarrow>
         (parseFloat v = PInf \<or> (\<exists>k. parseFloat v = Fin (of_nat k))) \<and>
         (parseFloat v = PInf \<longrightarrow> 2 ^ 1023 \<le> digits_val v) \<and>
         (digits_val v < 2 ^ 53 \<longrightarrow> parseFloat v = Fin (of_nat (digits_val v))))"
    proof
      assume "weeklyEntries (run acts) d = Some ent \<and> ent f = Some v"
      then have "acceptInput v" using w [of d ent f v] by (elim conjE)
      then show "acceptInput v \<and>
      (v \<noteq> [] \<longrightarrow>
         (parseFloat v = PInf \<or> (\<exists>k. parseFloat v = Fin (of_nat k))) \<and>
         (parseFloat v = PInf \<longrightarrow> 2 ^ 1023 \<le> digits_val v) \<and>
         (digits_val v < 2 ^ 53 \<longrightarrow> parseFloat v = Fin (of_nat (digits_val v))))"
        by (rule one)
    qed
  qed
qed

lemma handlers_gate:
  "acceptInput v \<Longrightarrow>
     handleDailyBudgetChange f v s = s\<lparr>dailyBudget := (dailyBudget s)(f \<mapsto> v)\<rparr>"
  "\<not> acceptInput v \<Longrightarrow> handleDailyBudgetChange f v s = s"
  "acceptInput v \<Longrightarrow>
     handleWeeklyEntryChange d f v s =
       s\<lparr>weeklyEntries :=
           (weeklyEntries s)
             (d \<mapsto> (case weeklyEntries s d of None \<Rightarrow> Map.empty | Some e \<Rightarrow> e)(f \<mapsto> v))\<rparr>"
  "\<not> acceptInput v \<Longrightarrow> handleWeeklyEntryChange d f v s = s"
  unfolding handleDailyBudgetChange_def handleWeeklyEntryChange_def gate_iff by simp_all

theorem stored_text_invariant_witness:
  "state_ok (run [DailyBudgetChange Carbs ''300'', WeeklyEntryChange Monday Fat ''-5'',
                  WeeklyEntryChange Tuesday Carbs ''12.5'',
                  WeeklyEntryChange Tuesday Carbs ''125'']) \<and>
   dailyBudget (run [DailyBudgetChange Carbs ''300'', WeeklyEntryChange Monday Fat ''-5'',
                     WeeklyEntryChange Tuesday Carbs ''12.5'',
                     WeeklyEntryChange Tuesday Carbs ''125'']) Carbs = Some ''300'' \<and>
   weeklyEntries (run [DailyBudgetChange Carbs ''300'', WeeklyEntryChange Monday Fat ''-5'',
                       WeeklyEntryChange Tuesday Carbs ''12.5'',
                       WeeklyEntryChange Tuesday Carbs ''125'']) Monday = Some emptyEntry \<and>
   weeklyEntries (run [DailyBudgetChange Carbs ''300'', WeeklyEntryChange Monday Fat ''-5'',
                       WeeklyEntryChange Tuesday Carbs ''12.5'',
                       WeeklyEntryChange Tuesday Carbs ''125'']) Tuesday =
     Some (emptyEntry(Carbs \<mapsto> ''125'')) \<and>
   acceptInput ''125'' \<and>
   parseFloat ''125'' = Fin 125"
proof -
  define acts where
    "acts = [DailyBudgetChange Carbs ''300'', WeeklyEntryChange Monday Fat ''-5'',
             WeeklyEntryChange Tuesday Carbs ''12.5'', WeeklyEntryChange Tuesday Carbs ''125'']"
  have g: "acceptInput ''300''" "\<not> acceptInput ''-5''" "\<not> acceptInput ''12.5''"
    "acceptInput ''125''"
    by (simp_all add: acceptInput_def)
  have r: "run acts =
     default_state
       \<lparr>dailyBudget := (dailyBudget default_state)(Carbs \<mapsto> ''300''),
        weeklyEntries := (weeklyEntries default_state)(Tuesday \<mapsto> emptyEntry(Carbs \<mapsto> ''125''))\<rparr>"
    by (simp add: acts_def run_def handlers_gate g default_state_def initial_state_def
        getInitialWeeklyEntries_def emptyWeeklyEntries_apply)
  have b: "dailyBudget (run acts) Carbs = Some ''300''"
    by (simp add: r)
  have m: "weeklyEntries (run acts) Monday = Some emptyEntry"
    by (simp add: r default_state_def initial_state_def getInitialWeeklyEntries_def
        emptyWeeklyEntries_apply)
  have t: "weeklyEntries (run acts) Tuesday = Some (emptyEntry(Carbs \<mapsto> ''125''))"
    by (simp add: r)
  have dv: "digits_val ''125'' = 125"
    by (simp add: digits_val_def digit_val_def)
  note I = stored_text_invariant [of acts]
  from I have ok: "state_ok (run acts)" by (rule conjunct1)
  from I have "\<forall>d ent f v. weeklyEntries (run acts) d = Some ent \<and> ent f = Some v \<longrightarrow>
      acceptInput v \<and>
      (v \<noteq> [] \<longrightarrow>
         (parseFloat v = PInf \<or> (\<exists>k. parseFloat v = Fin (of_nat k))) \<and>
         (parseFloat v = PInf \<longrightarrow> 2 ^ 1023 \<le> digits_val v) \<and>
         (digits_val v < 2 ^ 53 \<longrightarrow> parseFloat v = Fin (of_nat (digits_val v))))"
    by (elim conjE)
  then have "weeklyEntries (run acts) Tuesday = Some (emptyEntry(Carbs \<mapsto> ''125'')) \<and>
             (emptyEntry(Carbs \<mapsto> ''125'')) Carbs = Some ''125'' \<longrightarrow>
      acceptInput ''125'' \<and>
      (''125'' \<noteq> [] \<longrightarrow>
         (parseFloat ''125'' = PInf \<or> (\<exists>k. parseFloat ''125'' = Fin (of_nat k))) \<and>
         (parseFloat ''125'' = PInf \<longrightarrow> 2 ^ 1023 \<le> digits_val ''125'') \<and>
         (digits_val ''125'' < 2 ^ 53 \<longrightarrow>
            parseFloat ''125'' = Fin (of_nat (digits_val ''125''))))"
    by (elim allE)
  with t have "acceptInput ''125'' \<and>
         (digits_val ''125'' < 2 ^ 53 \<longrightarrow>
            parseFloat ''125'' = Fin (of_nat (digits_val ''125'')))"
    by simp
  then have p: "acceptInput ''125'' \<and> parseFloat ''125'' = Fin 125"
    unfolding dv by simp
  show ?thesis
    using ok b m t p unfolding acts_def by (intro conjI) simp_all
qed

lemma digits_val_zeros:
  "digits_val (CHR ''1'' # replicate n (CHR ''0'')) = 10 ^ n"
proof -
  have "foldl (\<lambda>a c. 10 * a + digit_val c) a (replicate n (CHR ''0'')) = a * 10 ^ n" for a
    by (induction n arbitrary: a) (simp_all add: digit_val_def)
  from this [of 1] show ?thesis
    by (simp add: digits_val_def digit_val_def)
qed

text \<open>
  C10, as stated, fails: the gate accepts every string of digits, and a 1 followed by
  309 zeros, typed into the daily budget, is stored and parses to \<open>+\<infinity>\<close>, which is no
  integer.
\<close>

theorem stored_text_parse_counterexample:
  "dailyBudget (run [DailyBudgetChange Carbs (CHR ''1'' # replicate 309 (CHR ''0''))]) Carbs =
     Some (CHR ''1'' # replicate 309 (CHR ''0'')) \<and>
   parseFloat (CHR ''1'' # replicate 309 (CHR ''0'')) = PInf"
proof -
  define v where "v = CHR ''1'' # replicate 309 (CHR ''0'')"
  have ne: "v \<noteq> []" by (simp add: v_def)
  have dig: "list_all is_digit v"
    by (simp add: v_def list_all_iff is_digit_def)
  then have acc: "acceptInput v"
    using ne by (simp add: acceptInput_def list_all_iff is_digit_iff)
  have stored: "dailyBudget (run [DailyBudgetChange Carbs v]) Carbs = Some v"
    by (simp add: run_def handlers_gate acc)
  have dv: "digits_val v = 10 ^ 309"
    unfolding v_def by (rule digits_val_zeros)
  have big: "pow2 1024 \<le> of_nat (10 ^ 309)"
    by (simp add: pow2_def)
  have "parseFloat v = round64 (of_nat (digits_val v))"
    by (rule parseFloat_digits [OF ne dig])
  also have "\<dots> = PInf"
    unfolding dv by (rule round64_overflow(1) [OF big])
  finally show ?thesis using stored unfolding v_def by simp
qed

end
